theory Spec2Isabelle
  imports Complex_Main
begin

section \<open>JavaScript numbers used by the progress computation\<close>

text \<open>
  \<^verbatim>\<open>Math.round((completed / todos.length) * 100)\<close> is computed on IEEE 754 binary64
  numbers: \<open>/\<close> and \<open>*\<close> each return the double nearest to the exact result, ties to
  the even significand. The operands here are array lengths (below \<open>2 ^ 32\<close>) and the
  constant 100, so every exact result is 0 or lies between \<open>2 ^ -32\<close> and 100: the
  normal range, far from overflow and from subnormals. A double is modelled as the
  real number it denotes.
\<close>

fun bitlen :: "nat \<Rightarrow> nat" where
  "bitlen n = (if n = 0 then 0 else Suc (bitlen (n div 2)))"

declare bitlen.simps [simp del]

definition pow2 :: "int \<Rightarrow> real" where
  "pow2 e = (if 0 \<le> e then 2 ^ nat e else 1 / 2 ^ nat (- e))"

definition expo :: "real \<Rightarrow> int" where
  \<comment> \<open>the binary exponent of a positive number: \<open>2 ^ e \<le> q < 2 ^ (e + 1)\<close>\<close>
  "expo q =
     (if 1 \<le> q then int (bitlen (nat \<lfloor>q\<rfloor>)) - 1
      else - int (bitlen (nat (\<lceil>1 / q\<rceil> - 1))))"

definition round_even :: "real \<Rightarrow> int" where
  \<comment> \<open>nearest integer, a tie going to the even one\<close>
  "round_even x =
     (let f = \<lfloor>x\<rfloor>; d = x - of_int f
      in if d < 1 / 2 then f
         else if 1 / 2 < d then f + 1
         else if even f then f else f + 1)"

definition fl :: "real \<Rightarrow> real" where
  \<comment> \<open>round to nearest binary64 (53 significant bits), for 0 and the positive normal range\<close>
  "fl q =
     (if q \<le> 0 then 0
      else let u = pow2 (expo q - 52) in of_int (round_even (q / u)) * u)"

definition js_div :: "real \<Rightarrow> real \<Rightarrow> real" where
  "js_div x y = fl (x / y)"

definition js_mul :: "real \<Rightarrow> real \<Rightarrow> real" where
  "js_mul x y = fl (x * y)"

definition Math_round :: "real \<Rightarrow> int" where
  \<comment> \<open>\<^verbatim>\<open>Math.round\<close>: the nearest integer, a tie going up\<close>
  "Math_round x = \<lfloor>x + 1 / 2\<rfloor>"

section \<open>Data model (types.ts)\<close>

datatype PageType = project | work | paper | daily_log

text \<open>
  The values that a block's fields hold at run time. \<^verbatim>\<open>types.ts\<close> declares \<^verbatim>\<open>type\<close> as a
  union of five string literals, \<^verbatim>\<open>content\<close> as a string and \<^verbatim>\<open>checked\<close> as an optional
  boolean, for the type checker only: the generation service fills the three fields
  from parsed JSON through \<^verbatim>\<open>any\<close>, so each of them holds whatever \<^verbatim>\<open>JSON.parse\<close> produced
  there, or \<^verbatim>\<open>undefined\<close>. An object lists its properties in the order of the text; a
  number is the real it denotes.
\<close>

datatype jsval =
    JUndefined
  | JNull
  | JBool bool
  | JNum real
  | JStr string
  | JArr "jsval list"
  | JObj "(string \<times> jsval) list"

fun truthy :: "jsval \<Rightarrow> bool" where
  "truthy JUndefined = False"
| "truthy JNull = False"
| "truthy (JBool b) = b"
| "truthy (JNum x) = (x \<noteq> 0)"
| "truthy (JStr s) = (s \<noteq> '''')"
| "truthy (JArr xs) = True"
| "truthy (JObj kvs) = True"

definition nullish :: "jsval \<Rightarrow> bool" where
  \<comment> \<open>the values on which a property access throws a \<^verbatim>\<open>TypeError\<close>\<close>
  "nullish v = (v = JNull \<or> v = JUndefined)"

fun get_prop :: "jsval \<Rightarrow> string \<Rightarrow> jsval" where
  \<comment> \<open>\<^verbatim>\<open>b.key\<close> for a \<open>b\<close> that is not nullish and a key that no prototype defines
      (\<^verbatim>\<open>type\<close>, \<^verbatim>\<open>content\<close>, \<^verbatim>\<open>checked\<close>); of a key written twice the last one counts\<close>
  "get_prop (JObj kvs) k = (case map_of (rev kvs) k of None \<Rightarrow> JUndefined | Some v \<Rightarrow> v)"
| "get_prop v k = JUndefined"

type_synonym BlockType = string



record Block =
  block_id :: string
  block_type :: jsval
  content :: jsval
  checked :: jsval

record Page =
  page_id :: string
  page_type :: PageType
  title :: string
  emoji :: string
  createdAt :: int
  updatedAt :: int
  blocks :: "Block list"
  progress :: int

text \<open>
  \<^verbatim>\<open>Partial<Block>\<close> and \<^verbatim>\<open>Partial<Page>\<close>, the updates that the typed callers pass: each
  key is present (\<open>Some\<close>) or absent.
\<close>

record BlockUpdates =
  new_block_id :: "string option"
  new_block_type :: "BlockType option"
  new_content :: "string option"
  new_checked :: "bool option"

record PageUpdates =
  new_page_id :: "string option"
  new_page_type :: "PageType option"
  new_title :: "string option"
  new_emoji :: "string option"
  new_createdAt :: "int option"
  new_updatedAt :: "int option"
  new_blocks :: "Block list option"
  new_progress :: "int option"

definition no_block_updates :: BlockUpdates where
  "no_block_updates =
     \<lparr>new_block_id = None, new_block_type = None, new_content = None, new_checked = None\<rparr>"

definition no_page_updates :: PageUpdates where
  "no_page_updates =
     \<lparr>new_page_id = None, new_page_type = None, new_title = None, new_emoji = None,
      new_createdAt = None, new_updatedAt = None, new_blocks = None, new_progress = None\<rparr>"

definition only_blocks :: "Block list \<Rightarrow> PageUpdates" where
  \<comment> \<open>the object literal \<^verbatim>\<open>{ blocks: bs }\<close>\<close>
  "only_blocks bs = no_page_updates\<lparr>new_blocks := Some bs\<rparr>"

definition spread_block :: "Block \<Rightarrow> BlockUpdates \<Rightarrow> Block" where
  \<comment> \<open>\<^verbatim>\<open>{ ...b, ...updates }\<close>\<close>
  "spread_block b u =
     \<lparr>block_id = (case new_block_id u of None \<Rightarrow> block_id b | Some v \<Rightarrow> v),
      block_type = (case new_block_type u of None \<Rightarrow> block_type b | Some v \<Rightarrow> JStr v),
      content = (case new_content u of None \<Rightarrow> content b | Some v \<Rightarrow> JStr v),
      checked = (case new_checked u of None \<Rightarrow> checked b | Some v \<Rightarrow> JBool v)\<rparr>"

definition spread_page :: "Page \<Rightarrow> PageUpdates \<Rightarrow> int \<Rightarrow> Page" where
  \<comment> \<open>\<^verbatim>\<open>{ ...p, ...updates, updatedAt: Date.now() }\<close>\<close>
  "spread_page p u now =
     \<lparr>page_id = (case new_page_id u of None \<Rightarrow> page_id p | Some v \<Rightarrow> v),
      page_type = (case new_page_type u of None \<Rightarrow> page_type p | Some v \<Rightarrow> v),
      title = (case new_title u of None \<Rightarrow> title p | Some v \<Rightarrow> v),
      emoji = (case new_emoji u of None \<Rightarrow> emoji p | Some v \<Rightarrow> v),
      createdAt = (case new_createdAt u of None \<Rightarrow> createdAt p | Some v \<Rightarrow> v),
      updatedAt = now,
      blocks = (case new_blocks u of None \<Rightarrow> blocks p | Some v \<Rightarrow> v),
      progress = (case new_progress u of None \<Rightarrow> progress p | Some v \<Rightarrow> v)\<rparr>"

section \<open>The document store (App.tsx)\<close>

text \<open>
  The component state the handlers read and write. \<^verbatim>\<open>generateId()\<close> and \<^verbatim>\<open>Date.now()\<close>
  read the outside world: each value they return is a parameter of the handler that
  asks for it.
\<close>

record AppState =
  pages :: "Page list"
  selectedPageId :: "string option"
  isGenerating :: bool

definition selectedPage :: "AppState \<Rightarrow> Page option" where
  "selectedPage st =
     (case selectedPageId st of
        None \<Rightarrow> None
      | Some sid \<Rightarrow> find (\<lambda>p. page_id p = sid) (pages st))"

definition page_emoji :: "PageType \<Rightarrow> string" where
  \<comment> \<open>the two string literals as the source file holds them, in UTF-8 bytes\<close>
  "page_emoji t =
     (if t = daily_log
      then [CHR 0xC3, CHR 0xB0, CHR 0xC5, CHR 0xB8, CHR 0xE2, CHR 0x80, CHR 0x9C,
            CHR 0xE2, CHR 0x80, CHR 0xA6]
      else [CHR 0xC3, CHR 0xB0, CHR 0xC5, CHR 0xB8, CHR 0xE2, CHR 0x80, CHR 0x9C,
            CHR 0xE2, CHR 0x80, CHR 0x9E])"

definition createPage :: "PageType \<Rightarrow> string \<Rightarrow> int \<Rightarrow> int \<Rightarrow> string \<Rightarrow> AppState \<Rightarrow> AppState" where
  \<comment> \<open>\<open>pid\<close>, \<open>bid\<close>: the two identifiers drawn; \<open>t1\<close>, \<open>t2\<close>: the two clock readings\<close>
  "createPage type pid t1 t2 bid st =
     (let newPage =
        \<lparr>page_id = pid, page_type = type, title = '''', emoji = page_emoji type,
         createdAt = t1, updatedAt = t2,
         blocks = [\<lparr>block_id = bid, block_type = JStr ''h1'', content = JStr '''', checked = JUndefined\<rparr>],
         progress = 0\<rparr>
      in st\<lparr>pages := newPage # pages st, selectedPageId := Some (page_id newPage)\<rparr>)"

definition is_todo :: "Block \<Rightarrow> bool" where
  "is_todo b = (block_type b = JStr ''todo'')"

definition is_checked :: "Block \<Rightarrow> bool" where
  \<comment> \<open>the truthiness of \<^verbatim>\<open>b.checked\<close>\<close>
  "is_checked b = truthy (checked b)"

definition recalc_progress :: "Page \<Rightarrow> Page" where
  "recalc_progress updatedPage =
     (let todos = filter is_todo (blocks updatedPage)
      in if length todos > 0
         then let completed = length (filter is_checked todos)
              in updatedPage\<lparr>progress :=
                   Math_round (js_mul (js_div (of_nat completed) (of_nat (length todos))) 100)\<rparr>
         else updatedPage)"

definition updatePage_one :: "string \<Rightarrow> PageUpdates \<Rightarrow> int \<Rightarrow> Page \<Rightarrow> Page" where
  \<comment> \<open>the callback of \<^verbatim>\<open>prev.map\<close>\<close>
  "updatePage_one i updates now p =
     (if page_id p \<noteq> i then p
      else let updatedPage = spread_page p updates now
           in if new_blocks updates \<noteq> None then recalc_progress updatedPage
              else updatedPage)"

definition updatePage :: "string \<Rightarrow> PageUpdates \<Rightarrow> int \<Rightarrow> AppState \<Rightarrow> AppState" where
  "updatePage i updates now st = st\<lparr>pages := map (updatePage_one i updates now) (pages st)\<rparr>"

definition deletePage :: "string \<Rightarrow> AppState \<Rightarrow> AppState" where
  "deletePage i st =
     st\<lparr>pages := filter (\<lambda>p. page_id p \<noteq> i) (pages st),
        selectedPageId := (if selectedPageId st = Some i then None else selectedPageId st)\<rparr>"

definition updateBlock :: "string \<Rightarrow> string \<Rightarrow> BlockUpdates \<Rightarrow> int \<Rightarrow> AppState \<Rightarrow> AppState" where
  "updateBlock pageId blockId updates now st =
     (case find (\<lambda>p. page_id p = pageId) (pages st) of
        None \<Rightarrow> st
      | Some page \<Rightarrow>
          let newBlocks = map (\<lambda>b. if block_id b = blockId then spread_block b updates else b)
                              (blocks page)
          in updatePage pageId (only_blocks newBlocks) now st)"

fun findIndexFrom :: "('a \<Rightarrow> bool) \<Rightarrow> 'a list \<Rightarrow> int \<Rightarrow> int" where
  "findIndexFrom P [] i = - 1"
| "findIndexFrom P (x # xs) i = (if P x then i else findIndexFrom P xs (i + 1))"

definition findIndex :: "('a \<Rightarrow> bool) \<Rightarrow> 'a list \<Rightarrow> int" where
  \<comment> \<open>\<^verbatim>\<open>Array.prototype.findIndex\<close>: the first index that satisfies \<open>P\<close>, or -1\<close>
  "findIndex P xs = findIndexFrom P xs 0"

definition splice_insert :: "int \<Rightarrow> 'a \<Rightarrow> 'a list \<Rightarrow> 'a list" where
  \<comment> \<open>\<^verbatim>\<open>xs.splice(start, 0, x)\<close>: a negative start counts from the end, and the start is
      clamped to the array\<close>
  "splice_insert start x xs =
     (let len = int (length xs);
          k = (if start < 0 then max (len + start) 0 else min start len)
      in take (nat k) xs @ x # drop (nat k) xs)"

definition addBlock :: "string \<Rightarrow> string \<Rightarrow> string \<Rightarrow> int \<Rightarrow> AppState \<Rightarrow> AppState" where
  \<comment> \<open>\<open>newId\<close>: the identifier drawn for the new block\<close>
  "addBlock pageId afterBlockId newId now st =
     (case find (\<lambda>p. page_id p = pageId) (pages st) of
        None \<Rightarrow> st
      | Some page \<Rightarrow>
          let index = findIndex (\<lambda>b. block_id b = afterBlockId) (blocks page);
              newBlock = \<lparr>block_id = newId, block_type = JStr ''text'', content = JStr '''', checked = JUndefined\<rparr>;
              newBlocks = splice_insert (index + 1) newBlock (blocks page)
          in updatePage pageId (only_blocks newBlocks) now st)"

definition deleteBlock :: "string \<Rightarrow> string \<Rightarrow> int \<Rightarrow> AppState \<Rightarrow> AppState" where
  "deleteBlock pageId blockId now st =
     (case find (\<lambda>p. page_id p = pageId) (pages st) of
        None \<Rightarrow> st
      | Some page \<Rightarrow>
          if length (blocks page) \<le> 1 then st
          else updatePage pageId (only_blocks (filter (\<lambda>b. block_id b \<noteq> blockId) (blocks page))) now st)"

text \<open>
  \<^verbatim>\<open>INITIAL_PAGES\<close>, the state the component starts from. The literal reads the clock four
  times when the module is loaded; the emoji are the literals of the source file, in
  UTF-8 bytes.
\<close>

definition INITIAL_PAGES :: "int \<Rightarrow> int \<Rightarrow> int \<Rightarrow> int \<Rightarrow> Page list" where
  "INITIAL_PAGES t1 t2 t3 t4 =
     [\<lparr>page_id = ''1'', page_type = project, title = ''Website Redesign'',
       emoji = [CHR 0xC3, CHR 0xB0, CHR 0xC5, CHR 0xB8, CHR 0xC5, CHR 0xBD, CHR 0xC2, CHR 0xA8],
       createdAt = t1, updatedAt = t2,
       blocks =
         [\<lparr>block_id = ''b1'', block_type = JStr ''h1'', content = JStr ''Project Goals'', checked = JUndefined\<rparr>,
          \<lparr>block_id = ''b2'', block_type = JStr ''text'',
            content = JStr ''We need to modernize the look and feel of the landing page.'',
            checked = JUndefined\<rparr>,
          \<lparr>block_id = ''b3'', block_type = JStr ''h2'', content = JStr ''Tasks'', checked = JUndefined\<rparr>,
          \<lparr>block_id = ''b4'', block_type = JStr ''todo'', content = JStr ''Research competitors'',
            checked = JBool True\<rparr>,
          \<lparr>block_id = ''b5'', block_type = JStr ''todo'', content = JStr ''Draft wireframes'',
            checked = JBool False\<rparr>],
       progress = 35\<rparr>,
      \<lparr>page_id = ''2'', page_type = daily_log, title = ''March 15, 2024'',
       emoji = [CHR 0xC3, CHR 0xB0, CHR 0xC5, CHR 0xB8, CHR 0xE2, CHR 0x80, CHR 0x9C,
                CHR 0xE2, CHR 0x80, CHR 0xA6],
       createdAt = t3 - 86400000, updatedAt = t4,
       blocks =
         [\<lparr>block_id = ''l1'', block_type = JStr ''h1'', content = JStr ''Morning Reflection'',
            checked = JUndefined\<rparr>,
          \<lparr>block_id = ''l2'', block_type = JStr ''text'',
            content = JStr ''Started the day with a clear mind. Focused on the API integration.'',
            checked = JUndefined\<rparr>,
          \<lparr>block_id = ''l3'', block_type = JStr ''todo'', content = JStr ''Gym session'',
            checked = JBool True\<rparr>],
       progress = 100\<rparr>]"

definition initial_state :: "int \<Rightarrow> int \<Rightarrow> int \<Rightarrow> int \<Rightarrow> AppState" where
  \<comment> \<open>the three \<^verbatim>\<open>useState\<close> initial values the handlers depend on\<close>
  "initial_state t1 t2 t3 t4 =
     \<lparr>pages = INITIAL_PAGES t1 t2 t3 t4, selectedPageId = None, isGenerating = False\<rparr>"

definition setSelectedPageId :: "string option \<Rightarrow> AppState \<Rightarrow> AppState" where
  "setSelectedPageId sel st = st\<lparr>selectedPageId := sel\<rparr>"

section \<open>The content generation service (geminiService.ts)\<close>

text \<open>
  The service awaits \<^verbatim>\<open>ai.models.generateContent\<close> and hands the reply's text to
  \<^verbatim>\<open>JSON.parse\<close>, all inside one \<^verbatim>\<open>try\<close>. What comes back from the outside world is one of:
  the call is rejected (network, quota); the text is not JSON; or the text parses to a
  JSON value, any JSON value. An absent or empty text is parsed as \<^verbatim>\<open>'[]'\<close>, the empty
  array.
\<close>

datatype error = GenerationError | SyntaxError | TypeError

datatype reply = Rejected | NotJSON | Parsed jsval

text \<open>
  \<^verbatim>\<open>rawBlocks.map(b => ({ id: generateId(), type: b.type, ... }))\<close>. The argument
  \<open>generateId\<close> gives the identifiers drawn during the call: \<open>generateId k\<close> is the
  result of call number \<open>k\<close>. The object literal draws the identifier first and reads
  \<^verbatim>\<open>b.type\<close> next, which throws on a \<^verbatim>\<open>null\<close> entry. \<open>Inl (e, n)\<close> stands for the exception
  \<open>e\<close>, thrown when \<open>n\<close> identifiers had been drawn.
\<close>

definition breakdown_block :: "string \<Rightarrow> jsval \<Rightarrow> Block" where
  "breakdown_block i b =
     \<lparr>block_id = i, block_type = get_prop b ''type'', content = get_prop b ''content'',
      checked = (if truthy (get_prop b ''checked'') then get_prop b ''checked'' else JBool False)\<rparr>"

fun breakdown_map :: "(nat \<Rightarrow> string) \<Rightarrow> nat \<Rightarrow> jsval list \<Rightarrow> (error \<times> nat) + Block list" where
  "breakdown_map generateId k [] = Inr []"
| "breakdown_map generateId k (b # bs) =
     (if nullish b then Inl (TypeError, Suc k)
      else case breakdown_map generateId (Suc k) bs of
             Inl e \<Rightarrow> Inl e
           | Inr rest \<Rightarrow> Inr (breakdown_block (generateId k) b # rest))"

definition breakdown_try :: "(nat \<Rightarrow> string) \<Rightarrow> reply \<Rightarrow> (error \<times> nat) + Block list" where
  \<comment> \<open>the body of the \<^verbatim>\<open>try\<close>; a value that is no array has no \<^verbatim>\<open>map\<close> to call\<close>
  "breakdown_try generateId r =
     (case r of
        Rejected \<Rightarrow> Inl (GenerationError, 0)
      | NotJSON \<Rightarrow> Inl (SyntaxError, 0)
      | Parsed (JArr rawBlocks) \<Rightarrow> breakdown_map generateId 0 rawBlocks
      | Parsed _ \<Rightarrow> Inl (TypeError, 0))"

definition generatePageBreakdown :: "bool \<Rightarrow> (nat \<Rightarrow> string) \<Rightarrow> reply \<Rightarrow> Block list" where
  \<comment> \<open>\<open>apiKey\<close>: whether \<^verbatim>\<open>process.env.API_KEY\<close> is set\<close>
  "generatePageBreakdown apiKey generateId r =
     (if \<not> apiKey
      then [\<lparr>block_id = generateId 0, block_type = JStr ''text'',
             content = JStr ''API Key missing. Please configure your environment.'',
             checked = JUndefined\<rparr>]
      else case breakdown_try generateId r of
             Inr bs \<Rightarrow> bs
           | Inl (e, n) \<Rightarrow>
               [\<lparr>block_id = generateId n, block_type = JStr ''text'',
                 content = JStr ''Failed to generate plan. Please try again.'',
                 checked = JUndefined\<rparr>])"

definition suggest_block :: "string \<Rightarrow> jsval \<Rightarrow> Block" where
  "suggest_block i b =
     \<lparr>block_id = i, block_type = JStr ''todo'', content = get_prop b ''content'',
      checked = JBool False\<rparr>"

fun suggest_map :: "(nat \<Rightarrow> string) \<Rightarrow> nat \<Rightarrow> jsval list \<Rightarrow> (error \<times> nat) + Block list" where
  "suggest_map generateId k [] = Inr []"
| "suggest_map generateId k (b # bs) =
     (if nullish b then Inl (TypeError, Suc k)
      else case suggest_map generateId (Suc k) bs of
             Inl e \<Rightarrow> Inl e
           | Inr rest \<Rightarrow> Inr (suggest_block (generateId k) b # rest))"

definition suggest_try :: "(nat \<Rightarrow> string) \<Rightarrow> reply \<Rightarrow> (error \<times> nat) + Block list" where
  "suggest_try generateId r =
     (case r of
        Rejected \<Rightarrow> Inl (GenerationError, 0)
      | NotJSON \<Rightarrow> Inl (SyntaxError, 0)
      | Parsed (JArr rawBlocks) \<Rightarrow> suggest_map generateId 0 rawBlocks
      | Parsed _ \<Rightarrow> Inl (TypeError, 0))"

definition suggestNextSteps :: "bool \<Rightarrow> (nat \<Rightarrow> string) \<Rightarrow> reply \<Rightarrow> Block list" where
  "suggestNextSteps apiKey generateId r =
     (if \<not> apiKey then []
      else case suggest_try generateId r of Inr bs \<Rightarrow> bs | Inl e \<Rightarrow> [])"

section \<open>The generation handlers (App.tsx)\<close>

text \<open>
  Each handler reads \<^verbatim>\<open>selectedPage\<close> from the state it is called in, sets the flag and
  awaits the service. While the call is pending the other handlers go on changing the
  state: \<open>pending\<close> is what they make of it. The answer is then written into that later
  state, with the blocks of the page as they were captured before the \<^verbatim>\<open>await\<close>, and
  the \<^verbatim>\<open>finally\<close> clause clears the flag.
\<close>

definition handleAiBreakdown ::
  "bool \<Rightarrow> (nat \<Rightarrow> string) \<Rightarrow> reply \<Rightarrow> int \<Rightarrow> (AppState \<Rightarrow> AppState) \<Rightarrow> AppState \<Rightarrow> AppState" where
  "handleAiBreakdown apiKey generateId r now pending st =
     (case selectedPage st of
        None \<Rightarrow> st
      | Some sp \<Rightarrow>
          let later = pending (st\<lparr>isGenerating := True\<rparr>);
              generatedBlocks = generatePageBreakdown apiKey generateId r
          in (updatePage (page_id sp) (only_blocks (blocks sp @ generatedBlocks)) now later)
               \<lparr>isGenerating := False\<rparr>)"

definition handleAiSuggest ::
  "bool \<Rightarrow> (nat \<Rightarrow> string) \<Rightarrow> reply \<Rightarrow> int \<Rightarrow> (AppState \<Rightarrow> AppState) \<Rightarrow> AppState \<Rightarrow> AppState" where
  \<comment> \<open>the header's identifier is drawn after those of the suggestions\<close>
  "handleAiSuggest apiKey generateId r now pending st =
     (case selectedPage st of
        None \<Rightarrow> st
      | Some sp \<Rightarrow>
          let later = pending (st\<lparr>isGenerating := True\<rparr>);
              suggestions = suggestNextSteps apiKey generateId r
          in (if length suggestions > 0
              then let header = \<lparr>block_id = generateId (length suggestions),
                                 block_type = JStr ''h2'', content = JStr ''AI Suggestions'',
                                 checked = JUndefined\<rparr>
                   in updatePage (page_id sp) (only_blocks (blocks sp @ header # suggestions)) now
                        later
              else later)\<lparr>isGenerating := False\<rparr>)"

section \<open>Sequences of store operations\<close>

text \<open>
  One operation after the other. A generation handler in such a sequence gets its
  answer before the next operation starts; an answer that comes later writes the
  captured block list into the state as \<^verbatim>\<open>updatePage\<close> with a \<^verbatim>\<open>blocks\<close> key does.
\<close>

datatype Op =
    CreatePage PageType string int int string
  | UpdatePage string PageUpdates int
  | DeletePage string
  | SelectPage "string option"
  | UpdateBlock string string BlockUpdates int
  | AddBlock string string string int
  | DeleteBlock string string int
  | AiBreakdown bool "nat \<Rightarrow> string" reply int
  | AiSuggest bool "nat \<Rightarrow> string" reply int

fun apply_op :: "Op \<Rightarrow> AppState \<Rightarrow> AppState" where
  "apply_op (CreatePage type pid t1 t2 bid) st = createPage type pid t1 t2 bid st"
| "apply_op (UpdatePage i updates now) st = updatePage i updates now st"
| "apply_op (DeletePage i) st = deletePage i st"
| "apply_op (SelectPage sel) st = setSelectedPageId sel st"
| "apply_op (UpdateBlock pageId blockId updates now) st = updateBlock pageId blockId updates now st"
| "apply_op (AddBlock pageId afterBlockId newId now) st = addBlock pageId afterBlockId newId now st"
| "apply_op (DeleteBlock pageId blockId now) st = deleteBlock pageId blockId now st"
| "apply_op (AiBreakdown apiKey generateId r now) st =
     handleAiBreakdown apiKey generateId r now (\<lambda>s. s) st"
| "apply_op (AiSuggest apiKey generateId r now) st =
     handleAiSuggest apiKey generateId r now (\<lambda>s. s) st"

fun run :: "Op list \<Rightarrow> AppState \<Rightarrow> AppState" where
  "run [] st = st"
| "run (op # ops) st = run ops (apply_op op st)"

section \<open>Vocabulary of the properties\<close>

text \<open>
  The operations that change a page's blocks: every block handler, both generation
  handlers, and \<^verbatim>\<open>updatePage\<close> called with a \<^verbatim>\<open>blocks\<close> key and no \<^verbatim>\<open>progress\<close> key.
\<close>

fun block_mutation :: "Op \<Rightarrow> bool" where
  "block_mutation (UpdatePage i updates now) = (new_blocks updates \<noteq> None \<and> new_progress updates = None)"
| "block_mutation (UpdateBlock pageId blockId updates now) = True"
| "block_mutation (AddBlock pageId afterBlockId newId now) = True"
| "block_mutation (DeleteBlock pageId blockId now) = True"
| "block_mutation (AiBreakdown apiKey generateId r now) = True"
| "block_mutation (AiSuggest apiKey generateId r now) = True"
| "block_mutation (CreatePage type pid t1 t2 bid) = False"
| "block_mutation (DeletePage i) = False"
| "block_mutation (SelectPage sel) = False"




definition sample_ids :: "nat \<Rightarrow> string" where
  \<comment> \<open>a run of identifiers for the examples: \<^verbatim>\<open>g\<close>, \<^verbatim>\<open>gx\<close>, \<^verbatim>\<open>gxx\<close>, ...\<close>
  "sample_ids k = CHR ''g'' # replicate k CHR ''x''"

definition notes_state :: AppState where
  \<comment> \<open>one page without to-dos, its progress set to 42\<close>
  "notes_state =
     \<lparr>pages = [\<lparr>page_id = ''n'', page_type = paper, title = ''Notes'', emoji = ''N'',
                createdAt = 1, updatedAt = 2,
                blocks = [\<lparr>block_id = ''a'', block_type = JStr ''text'', content = JStr ''draft'',
                           checked = JUndefined\<rparr>],
                progress = 42\<rparr>],
      selectedPageId = Some ''n'', isGenerating = False\<rparr>"

text \<open>
  The progress the specification asks for: \<open>round(100 * completed / total)\<close> on exact
  numbers, a half going up. \<open>half_way x\<close> says that \<open>x\<close> lies exactly between two
  integers.
\<close>

definition round_half_up :: "real \<Rightarrow> int" where
  "round_half_up x = \<lfloor>x + 1 / 2\<rfloor>"

definition half_way :: "real \<Rightarrow> bool" where
  "half_way x = (x - of_int \<lfloor>x\<rfloor> = 1 / 2)"

definition todo_list :: "nat \<Rightarrow> nat \<Rightarrow> Block list" where
  \<comment> \<open>\<open>n\<close> to-do blocks, the first \<open>c\<close> of them checked\<close>
  "todo_list c n =
     map (\<lambda>k. \<lparr>block_id = sample_ids k, block_type = JStr ''todo'', content = JStr '''',
                checked = JBool (k < c)\<rparr>) [0..<n]"

definition three_todos :: "Block list" where
  \<comment> \<open>to-do blocks checked, unchecked, checked\<close>
  "three_todos =
     [\<lparr>block_id = ''t1'', block_type = JStr ''todo'', content = JStr ''one'', checked = JBool True\<rparr>,
      \<lparr>block_id = ''t2'', block_type = JStr ''todo'', content = JStr ''two'', checked = JBool False\<rparr>,
      \<lparr>block_id = ''t3'', block_type = JStr ''todo'', content = JStr ''three'', checked = JBool True\<rparr>]"

text \<open>
  The well-formed block lists of the data model (at least one block, no identifier
  twice), and the calls that keep them so: \<^verbatim>\<open>updatePage\<close> is given no \<^verbatim>\<open>blocks\<close> key or a
  well-formed list, \<^verbatim>\<open>updateBlock\<close> is given no \<^verbatim>\<open>id\<close> key, and the identifiers drawn by
  \<^verbatim>\<open>generateId\<close> are new to the page they go into and differ from one another.
\<close>

definition blocks_ok :: "Block list \<Rightarrow> bool" where
  "blocks_ok bs = (bs \<noteq> [] \<and> distinct (map block_id bs))"

definition store_ok :: "AppState \<Rightarrow> bool" where
  "store_ok st = list_all (\<lambda>p. blocks_ok (blocks p)) (pages st)"

fun op_ok :: "AppState \<Rightarrow> Op \<Rightarrow> bool" where
  "op_ok st (UpdatePage i updates now) =
     (case new_blocks updates of None \<Rightarrow> True | Some bs \<Rightarrow> blocks_ok bs)"
| "op_ok st (UpdateBlock pageId blockId updates now) = (new_block_id updates = None)"
| "op_ok st (AddBlock pageId afterBlockId newId now) =
     (case find (\<lambda>p. page_id p = pageId) (pages st) of
        None \<Rightarrow> True
      | Some page \<Rightarrow> newId \<notin> set (map block_id (blocks page)))"
| "op_ok st (AiBreakdown apiKey generateId r now) =
     (case selectedPage st of
        None \<Rightarrow> True
      | Some sp \<Rightarrow>
          distinct (map block_id (blocks sp @ generatePageBreakdown apiKey generateId r)))"
| "op_ok st (AiSuggest apiKey generateId r now) =
     (case selectedPage st of
        None \<Rightarrow> True
      | Some sp \<Rightarrow>
          let suggestions = suggestNextSteps apiKey generateId r
          in suggestions = [] \<or>
             distinct (generateId (length suggestions) # map block_id (blocks sp @ suggestions)))"
| "op_ok st (CreatePage type pid t1 t2 bid) = True"
| "op_ok st (DeletePage i) = True"
| "op_ok st (DeleteBlock pageId blockId now) = True"
| "op_ok st (SelectPage sel) = True"

fun ops_ok :: "AppState \<Rightarrow> Op list \<Rightarrow> bool" where
  "ops_ok st [] = True"
| "ops_ok st (op # ops) = (op_ok st op \<and> ops_ok (apply_op op st) ops)"

section \<open>Auxiliary facts\<close>

subsection \<open>Lookups and the per-page update\<close>

lemmas store_defs =
  addBlock_def updateBlock_def deleteBlock_def updatePage_def updatePage_one_def
  only_blocks_def no_page_updates_def no_block_updates_def spread_page_def spread_block_def
  recalc_progress_def is_todo_def is_checked_def initial_state_def INITIAL_PAGES_def
  findIndex_def splice_insert_def Let_def

lemmas number_defs =
  Math_round_def js_mul_def js_div_def fl_def expo_def bitlen.simps pow2_def round_even_def Let_def

lemma find_map_same:
  assumes "\<And>x. P (f x) = P x"
  shows "find P (map f xs) = map_option f (find P xs)"
  using assms by (induction xs) simp_all

lemma find_page_id: "find (\<lambda>p. page_id p = i) ps = Some page \<Longrightarrow> page_id page = i"
  by (induction ps) (auto split: if_splits)

lemma recalc_progress_fields [simp]:
  "page_id (recalc_progress p) = page_id p"
  "page_type (recalc_progress p) = page_type p"
  "title (recalc_progress p) = title p"
  "emoji (recalc_progress p) = emoji p"
  "createdAt (recalc_progress p) = createdAt p"
  "updatedAt (recalc_progress p) = updatedAt p"
  "blocks (recalc_progress p) = blocks p"
  by (simp_all add: recalc_progress_def Let_def)

lemma recalc_progress_no_todos:
  "filter is_todo (blocks p) = [] \<Longrightarrow> recalc_progress p = p"
  by (simp add: recalc_progress_def)

lemma updatePage_one_other: "page_id p \<noteq> i \<Longrightarrow> updatePage_one i u now p = p"
  by (simp add: updatePage_one_def)

lemma updatePage_one_only_blocks:
  "page_id p = i \<Longrightarrow>
   updatePage_one i (only_blocks bs) now p = recalc_progress (p\<lparr>updatedAt := now, blocks := bs\<rparr>)"
  by (cases p) (simp add: updatePage_one_def only_blocks_def no_page_updates_def spread_page_def)

lemma page_id_updatePage_one_only_blocks [simp]:
  "page_id (updatePage_one i (only_blocks bs) now p) = page_id p"
  by (cases "page_id p = i") (simp_all add: updatePage_one_only_blocks updatePage_one_other)

lemma find_updatePage_only_blocks:
  "find (\<lambda>p. page_id p = j) (pages (updatePage i (only_blocks bs) now st)) =
   map_option (updatePage_one i (only_blocks bs) now) (find (\<lambda>p. page_id p = j) (pages st))"
  by (simp add: updatePage_def find_map_same)

lemma updatePage_frame [simp]:
  "selectedPageId (updatePage i u now st) = selectedPageId st"
  "isGenerating (updatePage i u now st) = isGenerating st"
  by (simp_all add: updatePage_def)

lemma map_no_match:
  "blockId \<notin> block_id ` set bs \<Longrightarrow> map (\<lambda>b. if block_id b = blockId then g b else b) bs = bs"
  by (induction bs) auto

lemma filter_no_match:
  "blockId \<notin> block_id ` set bs \<Longrightarrow> filter (\<lambda>b. block_id b \<noteq> blockId) bs = bs"
  by (induction bs) auto

subsection \<open>\<^verbatim>\<open>findIndex\<close>\<close>

lemma findIndexFrom_no_match:
  "\<forall>x\<in>set xs. \<not> P x \<Longrightarrow> findIndexFrom P xs k = - 1"
  by (induction xs arbitrary: k) simp_all

text \<open>
  With no block of that id, \<^verbatim>\<open>findIndex\<close> answers -1 and \<^verbatim>\<open>splice(index + 1, 0, newBlock)\<close>
  inserts at position 0.
\<close>

lemma addBlock_unknown_after:
  assumes "find (\<lambda>p. page_id p = pageId) (pages st) = Some page"
    and "afterBlockId \<notin> block_id ` set (blocks page)"
  shows "find (\<lambda>p. page_id p = pageId) (pages (addBlock pageId afterBlockId newId now st)) =
         Some (recalc_progress (page\<lparr>updatedAt := now,
           blocks := \<lparr>block_id = newId, block_type = JStr ''text'', content = JStr '''', checked = JUndefined\<rparr>
                     # blocks page\<rparr>))"
proof -
  have "findIndex (\<lambda>b. block_id b = afterBlockId) (blocks page) = - 1"
    unfolding findIndex_def using assms(2) by (intro findIndexFrom_no_match) auto
  then show ?thesis
    using assms(1) find_page_id [OF assms(1)]
    by (simp add: addBlock_def splice_insert_def find_updatePage_only_blocks
        updatePage_one_only_blocks)
qed

text \<open>
  With a block of that id, the new block goes right behind the first such block.
\<close>

lemma findIndexFrom_first:
  "\<forall>y\<in>set ys. \<not> P y \<Longrightarrow> P b \<Longrightarrow> findIndexFrom P (ys @ b # zs) k = k + int (length ys)"
  by (induction ys arbitrary: k) simp_all

lemma addBlock_after_known:
  assumes "find (\<lambda>p. page_id p = pageId) (pages st) = Some page"
    and "blocks page = ys @ b # zs"
    and "block_id b = afterBlockId"
    and "afterBlockId \<notin> block_id ` set ys"
  shows "find (\<lambda>p. page_id p = pageId) (pages (addBlock pageId afterBlockId newId now st)) =
         Some (recalc_progress (page\<lparr>updatedAt := now,
           blocks := ys @ b #
             \<lparr>block_id = newId, block_type = JStr ''text'', content = JStr '''', checked = JUndefined\<rparr> # zs\<rparr>))"
proof -
  from assms(4) have "\<forall>y\<in>set ys. \<not> block_id y = afterBlockId"
    by (metis imageI)
  then have "findIndex (\<lambda>b. block_id b = afterBlockId) (blocks page) = int (length ys)"
    unfolding findIndex_def assms(2) using assms(3)
    by (subst findIndexFrom_first) simp_all
  moreover have "nat (int (length ys) + 1) = Suc (length ys)" by simp
  ultimately show ?thesis
    using assms(1,2) find_page_id [OF assms(1)]
    by (simp add: addBlock_def splice_insert_def find_updatePage_only_blocks
        updatePage_one_only_blocks min_def)
qed

subsection \<open>Values used in the examples\<close>

lemma progress_1_of_2: "Math_round (js_mul (js_div 1 2) 100) = 50"
  by (simp add: number_defs)

lemma progress_1_of_1: "Math_round (js_mul (js_div 1 1) 100) = 100"
  by (simp add: number_defs)


subsection \<open>Keys that an update does not carry\<close>

lemma spread_page_keeps:
  "new_page_id u = None \<Longrightarrow> page_id (spread_page p u now) = page_id p"
  "new_createdAt u = None \<Longrightarrow> createdAt (spread_page p u now) = createdAt p"
  "new_blocks u = None \<Longrightarrow> blocks (spread_page p u now) = blocks p"
  "new_progress u = None \<Longrightarrow> progress (spread_page p u now) = progress p"
  by (simp_all add: spread_page_def)

lemma updatePage_one_keeps:
  "new_page_id u = None \<Longrightarrow> page_id (updatePage_one i u now p) = page_id p"
  "new_createdAt u = None \<Longrightarrow> createdAt (updatePage_one i u now p) = createdAt p"
  "new_blocks u = None \<Longrightarrow> blocks (updatePage_one i u now p) = blocks p"
  by (simp_all add: updatePage_one_def spread_page_keeps Let_def)

lemma only_blocks_keys [simp]:
  "new_page_id (only_blocks bs) = None"
  "new_createdAt (only_blocks bs) = None"
  "new_progress (only_blocks bs) = None"
  "new_blocks (only_blocks bs) = Some bs"
  by (simp_all add: only_blocks_def no_page_updates_def)

lemma spread_block_keeps_id:
  "new_block_id u = None \<Longrightarrow> block_id (spread_block b u) = block_id b"
  by (simp add: spread_block_def)

lemma map_block_id_spread:
  "new_block_id u = None \<Longrightarrow>
   map block_id (map (\<lambda>b. if block_id b = blockId then spread_block b u else b) bs) = map block_id bs"
  by (induction bs) (simp_all add: spread_block_def)

subsection \<open>Progress of a page without to-dos\<close>

lemma updatePage_one_progress:
  assumes "new_progress u = None"
    and "filter is_todo (blocks (updatePage_one i u now p)) = []"
  shows "progress (updatePage_one i u now p) = progress p"
proof (cases "page_id p = i")
  case False
  then show ?thesis by (simp add: updatePage_one_def)
next
  case True
  show ?thesis
  proof (cases "new_blocks u")
    case None
    with True assms(1) show ?thesis
      by (simp add: updatePage_one_def spread_page_keeps)
  next
    case (Some bs)
    with True assms(2) have "filter is_todo (blocks (spread_page p u now)) = []"
      by (simp add: updatePage_one_def)
    with True Some assms(1) show ?thesis
      by (simp add: updatePage_one_def recalc_progress_no_todos spread_page_keeps)
  qed
qed

lemma updatePage_progress:
  assumes "new_progress u = None"
  shows "list_all2 (\<lambda>p p'. filter is_todo (blocks p') = [] \<longrightarrow> progress p' = progress p)
           (pages st) (pages (updatePage i u now st))"
  using assms
  by (simp add: updatePage_def list_all2_map2 list.rel_refl_strong updatePage_one_progress)

lemma same_pages_progress:
  "list_all2 (\<lambda>p p'. filter is_todo (blocks p') = [] \<longrightarrow> progress p' = progress p) ps ps"
  by (simp add: list.rel_refl)

lemma updatePage_pages_flag [simp]:
  "pages (updatePage i u now (st\<lparr>isGenerating := g\<rparr>)) = pages (updatePage i u now st)"
  by (simp add: updatePage_def)

subsection \<open>Rounding to the nearest double\<close>

lemma bitlen_pos: "0 < n \<Longrightarrow> 0 < bitlen n"
  by (subst bitlen.simps) simp

lemma bitlen_bounds: "0 < n \<Longrightarrow> 2 ^ (bitlen n - 1) \<le> n \<and> n < 2 ^ bitlen n"
proof (induction n rule: bitlen.induct)
  case (1 n)
  from "1.prems" have n0: "n \<noteq> 0" by simp
  have bl: "bitlen n = Suc (bitlen (n div 2))"
    using bitlen.simps [of n] n0 by simp
  show ?case
  proof (cases "n div 2 = 0")
    case True
    with "1.prems" have "n = 1" by presburger
    then show ?thesis by (simp add: bitlen.simps)
  next
    case False
    then have pos: "0 < n div 2" by simp
    from "1.IH" [OF n0 pos]
    have lo: "2 ^ (bitlen (n div 2) - 1) \<le> n div 2" and hi: "n div 2 < 2 ^ bitlen (n div 2)"
      by simp_all
    from bitlen_pos [OF pos] obtain k where k: "bitlen (n div 2) = Suc k"
      by (cases "bitlen (n div 2)") simp_all
    from lo k have "2 * 2 ^ k \<le> 2 * (n div 2)" by simp
    also have "\<dots> \<le> n" by presburger
    finally have a: "2 ^ (bitlen n - 1) \<le> n" by (simp add: bl k)
    from hi have "n div 2 + 1 \<le> 2 ^ bitlen (n div 2)" by simp
    then have "2 * (n div 2) + 2 \<le> 2 * 2 ^ bitlen (n div 2)" by simp
    moreover have "n < 2 * (n div 2) + 2" by presburger
    ultimately have b: "n < 2 ^ bitlen n" by (simp add: bl)
    from a b show ?thesis by simp
  qed
qed

lemma pow2_pos: "0 < pow2 e"
  by (simp add: pow2_def)

lemma pow2_nat: "pow2 (int k) = 2 ^ k"
  by (simp add: pow2_def)

lemma pow2_neg_nat: "pow2 (- int k) = 1 / 2 ^ k"
  by (simp add: pow2_def)

lemma pow2_powi: "pow2 e = 2 powi e"
  by (simp add: pow2_def power_int_def inverse_eq_divide power_one_over)

lemma pow2_diff: "pow2 (a - b) = pow2 a / pow2 b"
  by (simp add: pow2_powi power_int_diff)

lemma expo_bounds:
  assumes "0 < q"
  shows "pow2 (expo q) \<le> q \<and> q < 2 * pow2 (expo q)"
proof (cases "1 \<le> q")
  case True
  define n where "n = nat \<lfloor>q\<rfloor>"
  from True have fl1: "1 \<le> \<lfloor>q\<rfloor>" by simp
  then have npos: "0 < n" by (simp add: n_def)
  have nq: "real n \<le> q" and qn: "q < real n + 1"
    using fl1 by (simp_all add: n_def)
  from bitlen_pos [OF npos] obtain k where k: "bitlen n = Suc k"
    by (cases "bitlen n") simp_all
  from bitlen_bounds [OF npos] k have lo: "2 ^ k \<le> n" and hi: "n < 2 ^ Suc k" by simp_all
  have e: "expo q = int k"
    using True by (simp add: expo_def n_def [symmetric] k)
  have pe: "pow2 (expo q) = 2 ^ k" by (simp add: e pow2_nat)
  from lo have "(2::real) ^ k \<le> real n"
    by (metis of_nat_le_iff of_nat_numeral of_nat_power)
  with nq have a: "pow2 (expo q) \<le> q" unfolding pe by linarith
  from hi have "n + 1 \<le> 2 ^ Suc k" by simp
  then have "real (n + 1) \<le> 2 ^ Suc k"
    by (metis of_nat_le_iff of_nat_numeral of_nat_power)
  then have "real n + 1 \<le> 2 * 2 ^ k" by simp
  with qn have b: "q < 2 * pow2 (expo q)" unfolding pe by linarith
  from a b show ?thesis by simp
next
  case False
  then have q1: "q < 1" by simp
  define m where "m = \<lceil>1 / q\<rceil>"
  define n where "n = nat (m - 1)"
  from assms q1 have inv: "1 < 1 / q" by simp
  then have m2: "2 \<le> m" unfolding m_def by linarith
  then have npos: "0 < n" by (simp add: n_def)
  have rn: "real n = of_int m - 1" using m2 by (simp add: n_def)
  have up: "1 / q \<le> of_int m" unfolding m_def by simp
  have dn: "of_int m - 1 < 1 / q" unfolding m_def by linarith
  from bitlen_pos [OF npos] obtain k where k: "bitlen n = Suc k"
    by (cases "bitlen n") simp_all
  from bitlen_bounds [OF npos] k have lo: "2 ^ k \<le> n" and hi: "n < 2 ^ Suc k" by simp_all
  have e: "expo q = - int (Suc k)"
    using False by (simp add: expo_def m_def [symmetric] n_def [symmetric] k)
  from lo have lo': "(2::real) ^ k \<le> real n"
    by (metis of_nat_le_iff of_nat_numeral of_nat_power)
  from hi have "n + 1 \<le> 2 ^ Suc k" by simp
  then have hi': "real (n + 1) \<le> 2 ^ Suc k"
    by (metis of_nat_le_iff of_nat_numeral of_nat_power)
  from up rn hi' have "1 / q \<le> 2 ^ Suc k" by simp
  with assms have "1 \<le> 2 ^ Suc k * q" by (simp add: field_simps)
  then have a: "pow2 (expo q) \<le> q"
    unfolding e pow2_neg_nat by (simp add: field_simps)
  from dn rn lo' have "2 ^ k < 1 / q" by simp
  with assms have "2 ^ k * q < 1" by (simp add: field_simps)
  then have b: "q < 2 * pow2 (expo q)"
    unfolding e pow2_neg_nat by (simp add: field_simps)
  from a b show ?thesis by simp
qed

lemma round_even_error: "\<bar>of_int (round_even x) - x\<bar> \<le> 1 / 2"
  unfolding round_even_def Let_def by (auto simp: abs_le_iff)

lemma fl_error:
  assumes "0 < q"
  shows "\<bar>fl q - q\<bar> \<le> q / 2 ^ 53"
proof -
  define u where "u = pow2 (expo q - 52)"
  have upos: "0 < u" by (simp add: u_def pow2_pos)
  have u52: "u * 2 ^ 52 = pow2 (expo q)"
    by (simp add: u_def pow2_diff pow2_nat [of 52, simplified])
  have flq: "fl q = of_int (round_even (q / u)) * u"
    using assms by (simp add: fl_def u_def Let_def)
  have "fl q - q = (of_int (round_even (q / u)) - q / u) * u"
    using upos by (simp add: flq field_simps)
  then have "\<bar>fl q - q\<bar> = \<bar>of_int (round_even (q / u)) - q / u\<bar> * \<bar>u\<bar>"
    by (simp only: abs_mult)
  also have "\<dots> = \<bar>of_int (round_even (q / u)) - q / u\<bar> * u"
    using upos by simp
  also have "\<dots> \<le> 1 / 2 * u"
    using round_even_error [of "q / u"] upos by (intro mult_right_mono) simp_all
  also have "\<dots> = pow2 (expo q) / 2 ^ 53"
    using u52 by simp
  also have "\<dots> \<le> q / 2 ^ 53"
    using expo_bounds [OF assms] by (simp add: divide_right_mono)
  finally show ?thesis .
qed

lemma fl_zero: "fl 0 = 0"
  by (simp add: fl_def)

lemma js_progress_close:
  assumes "0 < c" and "c \<le> n"
  shows "\<bar>js_mul (js_div (real c) (real n)) 100 - 100 * real c / real n\<bar> \<le> 300 / 2 ^ 53 \<and>
         0 \<le> js_mul (js_div (real c) (real n)) 100"
proof -
  define X where "X = real c / real n"
  define x1 where "x1 = fl X"
  define y1 where "y1 = fl (x1 * 100)"
  from assms have npos: "0 < real n" by simp
  from assms have Xpos: "0 < X" by (simp add: X_def)
  from assms npos have X1: "X \<le> 1" by (simp add: X_def)
  define d where "d = X / 2 ^ 53"
  from fl_error [OF Xpos] have e1: "\<bar>x1 - X\<bar> \<le> d" by (simp add: x1_def d_def)
  have dpos: "0 < d" and small: "d < X" using Xpos by (simp_all add: d_def)
  from e1 small have x1pos: "0 < x1" by linarith
  from e1 small have x1up: "x1 \<le> 2 * X" by linarith
  from x1pos have ypos: "0 < x1 * 100" by simp
  from fl_error [OF ypos] have e2: "\<bar>y1 - x1 * 100\<bar> \<le> x1 * 100 / 2 ^ 53" by (simp add: y1_def)
  from x1up have "x1 * 100 / 2 ^ 53 \<le> (2 * X) * 100 / 2 ^ 53"
    by (intro divide_right_mono mult_right_mono) simp_all
  also have "\<dots> = 200 * d" by (simp add: d_def)
  finally have "x1 * 100 / 2 ^ 53 \<le> 200 * d" .
  with e2 have e2': "\<bar>y1 - x1 * 100\<bar> \<le> 200 * d" by linarith
  from e1 e2' have "\<bar>y1 - 100 * X\<bar> \<le> 300 * d" by linarith
  also have "\<dots> \<le> 300 * (1 / 2 ^ 53)"
    using X1 by (intro mult_left_mono) (simp_all add: d_def divide_right_mono)
  finally have close: "\<bar>y1 - 100 * X\<bar> \<le> 300 / 2 ^ 53" by simp
  have small2: "x1 * 100 / 2 ^ 53 < x1 * 100" using ypos by simp
  from e2 small2 have "0 \<le> y1" by linarith
  with close show ?thesis
    by (simp add: y1_def x1_def X_def js_mul_def js_div_def)
qed

lemma progress_value_zero:
  "Math_round (js_mul (js_div (real 0) (real n)) 100) = 0"
  by (simp add: js_div_def js_mul_def fl_zero Math_round_def)

lemma progress_value_bounds:
  assumes "c \<le> n" and "0 < n"
  shows "0 \<le> Math_round (js_mul (js_div (real c) (real n)) 100) \<and>
         Math_round (js_mul (js_div (real c) (real n)) 100) \<le> 100"
proof (cases "c = 0")
  case True
  then show ?thesis using progress_value_zero [of n] by simp
next
  case False
  then have cpos: "0 < c" by simp
  define y1 where "y1 = js_mul (js_div (real c) (real n)) 100"
  from js_progress_close [OF cpos assms(1)]
  have close: "\<bar>y1 - 100 * real c / real n\<bar> \<le> 300 / 2 ^ 53" and nonneg: "0 \<le> y1"
    by (simp_all add: y1_def)
  from assms have "real c / real n \<le> 1" by simp
  then have "100 * real c / real n \<le> 100" by simp
  with close have "y1 \<le> 100 + 300 / 2 ^ 53" by linarith
  then have "y1 + 1 / 2 < 101" by simp
  then have up: "\<lfloor>y1 + 1 / 2\<rfloor> \<le> 100" by (simp add: floor_less_iff [symmetric] del: floor_less_iff)
  from nonneg have "0 \<le> y1 + 1 / 2" by simp
  then have lo: "0 \<le> \<lfloor>y1 + 1 / 2\<rfloor>" by simp
  from lo up show ?thesis by (simp add: Math_round_def y1_def)
qed

lemma progress_value_exact:
  assumes "c \<le> n" and "0 < n" and "n < 2 ^ 32" and "(200 * c + n) mod (2 * n) \<noteq> 0"
  shows "Math_round (js_mul (js_div (real c) (real n)) 100) = int ((200 * c + n) div (2 * n))"
proof (cases "c = 0")
  case True
  then show ?thesis using progress_value_zero [of n] assms(2) by simp
next
  case False
  then have cpos: "0 < c" by simp
  define y1 where "y1 = js_mul (js_div (real c) (real n)) 100"
  define K where "K = (200 * c + n) div (2 * n)"
  define R where "R = (200 * c + n) mod (2 * n)"
  from js_progress_close [OF cpos assms(1)]
  have close: "\<bar>y1 - 100 * real c / real n\<bar> \<le> 300 / 2 ^ 53"
    by (simp add: y1_def)
  have npos: "0 < real n" using assms(2) by simp
  have "200 * c + n = K * (2 * n) + R"
    unfolding K_def R_def by (rule div_mult_mod_eq [symmetric])
  then have "real (200 * c + n) = real (K * (2 * n) + R)" by simp
  then have "200 * real c + real n = real K * (2 * real n) + real R" by simp
  then have "(200 * real c + real n) / (2 * real n) = (real K * (2 * real n) + real R) / (2 * real n)"
    by simp
  then have T: "100 * real c / real n + 1 / 2 = real K + real R / (2 * real n)"
    using npos by (simp add: field_simps)
  from assms(4) have R1: "1 \<le> R" by (simp add: R_def)
  have "R < 2 * n" using assms(2) by (simp add: R_def)
  then have R2: "R + 1 \<le> 2 * n" by simp
  from R1 have "1 \<le> real R" by simp
  then have lo: "1 / (2 * real n) \<le> real R / (2 * real n)"
    using npos by (simp add: divide_right_mono)
  from R2 have "real (R + 1) \<le> real (2 * n)" by (simp only: of_nat_le_iff)
  then have "real R \<le> 2 * real n - 1" by simp
  then have "real R / (2 * real n) \<le> (2 * real n - 1) / (2 * real n)"
    using npos by (simp add: divide_right_mono)
  then have hi: "real R / (2 * real n) \<le> 1 - 1 / (2 * real n)"
    using npos by (simp add: field_simps)
  from assms(3) have "real n < 2 ^ 32"
    by (metis of_nat_less_iff of_nat_numeral of_nat_power)
  then have "2 * real n < 2 ^ 33" by simp
  then have "1 / 2 ^ 33 < 1 / (2 * real n)"
    using npos by (simp add: field_simps)
  moreover have "(300::real) / 2 ^ 53 < 1 / 2 ^ 33" by simp
  ultimately have gap: "300 / 2 ^ 53 < 1 / (2 * real n)" by linarith
  from close T lo gap have a: "real K < y1 + 1 / 2" by linarith
  from close T hi gap have b: "y1 + 1 / 2 < real K + 1" by linarith
  from a b have "\<lfloor>y1 + 1 / 2\<rfloor> = int K"
    by (intro floor_unique) simp_all
  then show ?thesis by (simp add: Math_round_def y1_def K_def)
qed

subsection \<open>The progress of a page with to-dos\<close>

lemma round_half_up_div:
  assumes "0 < n"
  shows "round_half_up (100 * real c / real n) = int ((200 * c + n) div (2 * n))"
proof -
  have "100 * real c / real n + 1 / 2 = real (200 * c + n) / real (2 * n)"
    using assms by (simp add: field_simps)
  then show ?thesis
    unfolding round_half_up_def by (simp only: floor_divide_of_nat_eq)
qed

lemma half_way_iff:
  assumes "0 < n"
  shows "half_way (100 * real c / real n) \<longleftrightarrow> (200 * c + n) mod (2 * n) = 0"
proof
  assume h: "half_way (100 * real c / real n)"
  define F where "F = \<lfloor>100 * real c / real n\<rfloor>"
  from h have "100 * real c / real n = of_int F + 1 / 2"
    by (simp add: half_way_def F_def)
  with assms have "200 * real c + real n = 2 * real n * (of_int F + 1)"
    by (simp add: field_simps)
  then have "real_of_int (int (200 * c + n)) = real_of_int (int (2 * n) * (F + 1))"
    by simp
  then have "int (200 * c + n) = int (2 * n) * (F + 1)"
    by (simp only: of_int_eq_iff)
  then have "int (200 * c + n) mod int (2 * n) = 0"
    by simp
  then have "int ((200 * c + n) mod (2 * n)) = 0"
    by (simp only: zmod_int)
  then show "(200 * c + n) mod (2 * n) = 0"
    by simp
next
  assume "(200 * c + n) mod (2 * n) = 0"
  then obtain K where K: "200 * c + n = 2 * n * K" by (auto simp: mod_eq_0_iff_dvd)
  with assms have Kpos: "0 < K" by (cases K) simp_all
  from K have "real (200 * c + n) = real (2 * n * K)" by simp
  then have "200 * real c + real n = 2 * real n * real K" by simp
  then have "(200 * real c + real n) / (2 * real n) = real K"
    using assms by (simp add: field_simps)
  then have v: "100 * real c / real n = real K - 1 / 2"
    using assms by (simp add: field_simps)
  have "\<lfloor>real K - 1 / 2\<rfloor> = int K - 1"
    by (intro floor_unique) simp_all
  with v show "half_way (100 * real c / real n)"
    by (simp add: half_way_def)
qed

lemma progress_value_tie:
  assumes "c \<le> n" and "0 < n" and "(200 * c + n) mod (2 * n) = 0"
  shows "Math_round (js_mul (js_div (real c) (real n)) 100) =
         (if js_mul (js_div (real c) (real n)) 100 < 100 * real c / real n
          then int ((200 * c + n) div (2 * n)) - 1
          else int ((200 * c + n) div (2 * n)))"
proof -
  define y where "y = js_mul (js_div (real c) (real n)) 100"
  define K where "K = (200 * c + n) div (2 * n)"
  have cpos: "0 < c"
  proof (rule ccontr)
    assume "\<not> 0 < c"
    with assms(2,3) show False by simp
  qed
  from js_progress_close [OF cpos assms(1)]
  have close: "\<bar>y - 100 * real c / real n\<bar> \<le> 300 / 2 ^ 53"
    by (simp add: y_def)
  have npos: "0 < real n" using assms(2) by simp
  from assms(3) have "200 * c + n = K * (2 * n)"
    unfolding K_def by (metis add.right_neutral div_mult_mod_eq)
  then have "real (200 * c + n) = real (K * (2 * n))" by simp
  then have "200 * real c + real n = real K * (2 * real n)" by simp
  then have "(200 * real c + real n) / (2 * real n) = real K"
    using npos by (simp add: field_simps)
  then have T: "100 * real c / real n + 1 / 2 = real K"
    using npos by (simp add: field_simps)
  have small: "(300::real) / 2 ^ 53 < 1" by simp
  show ?thesis
  proof (cases "y < 100 * real c / real n")
    case True
    from True T have a: "y + 1 / 2 < real K" by linarith
    from close T small have b: "real K - 1 \<le> y + 1 / 2" by linarith
    from a b have "\<lfloor>y + 1 / 2\<rfloor> = int K - 1"
      by (intro floor_unique) simp_all
    with True show ?thesis by (simp add: Math_round_def y_def K_def)
  next
    case False
    from False T have a: "real K \<le> y + 1 / 2" by linarith
    from close T small have b: "y + 1 / 2 < real K + 1" by linarith
    from a b have "\<lfloor>y + 1 / 2\<rfloor> = int K"
      by (intro floor_unique) simp_all
    with False show ?thesis by (simp add: Math_round_def y_def K_def)
  qed
qed

lemma updatePage_one_progress_value:
  assumes "page_id p = i" and "new_blocks u = Some bs" and "filter is_todo bs \<noteq> []"
  shows "progress (updatePage_one i u now p) =
         Math_round (js_mul (js_div (real (length (filter is_checked (filter is_todo bs))))
                                    (real (length (filter is_todo bs)))) 100)"
  using assms by (simp add: updatePage_one_def recalc_progress_def spread_page_def Let_def)

lemma filter_todo_list: "filter is_todo (todo_list c n) = todo_list c n"
  by (simp add: todo_list_def is_todo_def filter_map o_def)

lemma length_todo_list: "length (todo_list c n) = n"
  by (simp add: todo_list_def)

lemma checked_todo_list: "length (filter is_checked (todo_list c n)) = min c n"
proof (induction n)
  case 0
  then show ?case by (simp add: todo_list_def)
next
  case (Suc n)
  have "todo_list c (Suc n) =
      todo_list c n @ [\<lparr>block_id = sample_ids n, block_type = JStr ''todo'', content = JStr '''',
                        checked = JBool (n < c)\<rparr>]"
    by (simp add: todo_list_def)
  with Suc show ?case by (simp add: is_checked_def)
qed

lemma product_23_of_40: "js_mul (js_div 23 40) 100 = 8092405580431359 / 140737488355328"
  by (simp add: number_defs)

lemma product_1_of_8: "js_mul (js_div 1 8) 100 = 25 / 2"
  by (simp add: number_defs)

lemma progress_23_of_40: "Math_round (js_mul (js_div 23 40) 100) = 57"
  by (simp add: number_defs)

subsection \<open>Pages keep at least one block\<close>

lemma find_in_set: "find P xs = Some x \<Longrightarrow> x \<in> set xs"
  by (induction xs) (auto split: if_splits)

lemma store_okD: "store_ok st \<Longrightarrow> p \<in> set (pages st) \<Longrightarrow> blocks_ok (blocks p)"
  by (simp add: store_ok_def list_all_iff)

lemma blocks_updatePage_one:
  "blocks (updatePage_one i u now p) =
   (if page_id p = i then (case new_blocks u of None \<Rightarrow> blocks p | Some bs \<Rightarrow> bs) else blocks p)"
  by (simp add: updatePage_one_def spread_page_def Let_def split: option.split)

lemma store_ok_updatePage:
  assumes "store_ok st" and "case new_blocks u of None \<Rightarrow> True | Some bs \<Rightarrow> blocks_ok bs"
  shows "store_ok (updatePage i u now st)"
  using assms
  by (auto simp: store_ok_def updatePage_def list_all_iff blocks_updatePage_one split: option.splits)

lemma store_ok_only_blocks:
  "store_ok st \<Longrightarrow> blocks_ok bs \<Longrightarrow> store_ok (updatePage i (only_blocks bs) now st)"
  by (rule store_ok_updatePage) simp_all

lemma store_ok_flag [simp]: "store_ok (st\<lparr>isGenerating := g\<rparr>) = store_ok st"
  by (simp add: store_ok_def)

lemma blocks_ok_spread:
  assumes "blocks_ok bs" and "new_block_id u = None"
  shows "blocks_ok (map (\<lambda>b. if block_id b = blockId then spread_block b u else b) bs)"
proof -
  have eq: "map block_id (map (\<lambda>b. if block_id b = blockId then spread_block b u else b) bs) =
        map block_id bs"
    by (rule map_block_id_spread [OF assms(2)])
  from assms(1) show ?thesis unfolding blocks_ok_def eq by simp
qed

lemma distinct_insert_middle:
  "distinct (ys @ zs) \<Longrightarrow> a \<notin> set (ys @ zs) \<Longrightarrow> distinct (ys @ a # zs)"
  by auto

lemma blocks_ok_splice:
  assumes "blocks_ok bs" and "block_id x \<notin> set (map block_id bs)"
  shows "blocks_ok (splice_insert k x bs)"
proof -
  define j where "j = nat (if k < 0 then max (int (length bs) + k) 0 else min k (int (length bs)))"
  have s: "splice_insert k x bs = take j bs @ x # drop j bs"
    by (simp add: splice_insert_def j_def Let_def)
  have split: "map block_id (take j bs) @ map block_id (drop j bs) = map block_id bs"
    by (simp only: map_append [symmetric] append_take_drop_id)
  from assms have "distinct (map block_id (take j bs) @ map block_id (drop j bs))"
    and "block_id x \<notin> set (map block_id (take j bs) @ map block_id (drop j bs))"
    unfolding split by (simp_all add: blocks_ok_def)
  then have "distinct (map block_id (take j bs) @ block_id x # map block_id (drop j bs))"
    by (rule distinct_insert_middle)
  then show ?thesis
    unfolding s blocks_ok_def by simp
qed

lemma at_most_one_match:
  "distinct (map f xs) \<Longrightarrow> length (filter (\<lambda>x. f x = a) xs) \<le> 1"
proof (induction xs)
  case Nil
  then show ?case by simp
next
  case (Cons x xs)
  show ?case
  proof (cases "f x = a")
    case True
    from Cons.prems have "f x \<notin> f ` set xs" by simp
    with True have "\<forall>y\<in>set xs. f y \<noteq> a" by (metis imageI)
    then have "filter (\<lambda>x. f x = a) xs = []" by (simp add: filter_empty_conv)
    with True show ?thesis by simp
  next
    case False
    with Cons show ?thesis by simp
  qed
qed

lemma blocks_ok_delete:
  assumes "blocks_ok bs" and "\<not> length bs \<le> 1"
  shows "blocks_ok (filter (\<lambda>b. block_id b \<noteq> blockId) bs)"
proof -
  from assms(1) have d: "distinct (map block_id bs)" by (simp add: blocks_ok_def)
  have "length (filter (\<lambda>b. block_id b = blockId) bs) +
        length (filter (\<lambda>b. \<not> block_id b = blockId) bs) = length bs"
    by (rule sum_length_filter_compl)
  with at_most_one_match [OF d, of blockId] assms(2)
  have "0 < length (filter (\<lambda>b. block_id b \<noteq> blockId) bs)" by arith
  then have "filter (\<lambda>b. block_id b \<noteq> blockId) bs \<noteq> []" by simp
  moreover from d have "distinct (map block_id (filter (\<lambda>b. block_id b \<noteq> blockId) bs))"
    by (rule distinct_map_filter)
  ultimately show ?thesis by (simp add: blocks_ok_def)
qed

lemma selectedPage_in_pages: "selectedPage st = Some sp \<Longrightarrow> sp \<in> set (pages st)"
  by (auto simp: selectedPage_def split: option.splits dest: find_in_set)

lemma store_ok_apply_op:
  assumes "store_ok st" and "op_ok st op"
  shows "store_ok (apply_op op st)"
proof (cases op)
  case (CreatePage type pid t1 t2 bid)
  with assms(1) show ?thesis
    by (simp add: store_ok_def createPage_def blocks_ok_def)
next
  case (UpdatePage i u now)
  with assms show ?thesis by (simp add: store_ok_updatePage)
next
  case (DeletePage i)
  with assms(1) show ?thesis
    by (simp add: store_ok_def deletePage_def list_all_iff)
next
  case (SelectPage sel)
  with assms(1) show ?thesis
    by (simp add: store_ok_def setSelectedPageId_def)
next
  case (UpdateBlock pageId blockId u now)
  show ?thesis
  proof (cases "find (\<lambda>p. page_id p = pageId) (pages st)")
    case None
    with UpdateBlock assms(1) show ?thesis by (simp add: updateBlock_def)
  next
    case (Some page)
    from store_okD [OF assms(1) find_in_set [OF Some]] have "blocks_ok (blocks page)" .
    with UpdateBlock Some assms show ?thesis
      by (simp add: updateBlock_def store_ok_only_blocks blocks_ok_spread)
  qed
next
  case (AddBlock pageId afterBlockId newId now)
  show ?thesis
  proof (cases "find (\<lambda>p. page_id p = pageId) (pages st)")
    case None
    with AddBlock assms(1) show ?thesis by (simp add: addBlock_def)
  next
    case (Some page)
    from store_okD [OF assms(1) find_in_set [OF Some]] have "blocks_ok (blocks page)" .
    with AddBlock Some assms show ?thesis
      by (simp add: addBlock_def Let_def store_ok_only_blocks blocks_ok_splice)
  qed
next
  case (DeleteBlock pageId blockId now)
  show ?thesis
  proof (cases "find (\<lambda>p. page_id p = pageId) (pages st)")
    case None
    with DeleteBlock assms(1) show ?thesis by (simp add: deleteBlock_def)
  next
    case (Some page)
    from store_okD [OF assms(1) find_in_set [OF Some]] have "blocks_ok (blocks page)" .
    with DeleteBlock Some assms show ?thesis
      by (simp add: deleteBlock_def store_ok_only_blocks blocks_ok_delete)
  qed
next
  case (AiBreakdown apiKey generateId r now)
  show ?thesis
  proof (cases "selectedPage st")
    case None
    with AiBreakdown assms(1) show ?thesis by (simp add: handleAiBreakdown_def)
  next
    case (Some sp)
    from store_okD [OF assms(1) selectedPage_in_pages [OF Some]] have "blocks_ok (blocks sp)" .
    with AiBreakdown Some assms(2)
    have "blocks_ok (blocks sp @ generatePageBreakdown apiKey generateId r)"
      by (simp add: blocks_ok_def)
    with AiBreakdown Some assms(1) show ?thesis
      by (simp add: handleAiBreakdown_def store_ok_only_blocks)
  qed
next
  case (AiSuggest apiKey generateId r now)
  show ?thesis
  proof (cases "selectedPage st")
    case None
    with AiSuggest assms(1) show ?thesis by (simp add: handleAiSuggest_def)
  next
    case (Some sp)
    let ?s = "suggestNextSteps apiKey generateId r"
    let ?h = "\<lparr>block_id = generateId (length ?s), block_type = JStr ''h2'',
               content = JStr ''AI Suggestions'', checked = JUndefined\<rparr>"
    show ?thesis
    proof (cases "?s = []")
      case True
      with AiSuggest Some assms(1) show ?thesis
        by (simp add: handleAiSuggest_def)
    next
      case False
      with AiSuggest Some assms(2) have "blocks_ok (blocks sp @ ?h # ?s)"
        by (auto simp: blocks_ok_def Let_def)
      with False AiSuggest Some assms(1) show ?thesis
        by (simp add: handleAiSuggest_def Let_def store_ok_only_blocks)
    qed
  qed
qed

lemma store_ok_run: "store_ok st \<Longrightarrow> ops_ok st ops \<Longrightarrow> store_ok (run ops st)"
  by (induction ops arbitrary: st) (simp_all add: store_ok_apply_op)

subsection \<open>The generation service\<close>

















subsection \<open>The answer written into the later state\<close>

lemma selectedPage_SomeD:
  "selectedPage st = Some sp \<Longrightarrow>
   selectedPageId st = Some (page_id sp) \<and> find (\<lambda>p. page_id p = page_id sp) (pages st) = Some sp"
  by (auto simp: selectedPage_def split: option.splits dest: find_page_id)



lemma handleAiBreakdown_pages:
  assumes "selectedPage st = Some sp"
  shows "pages (handleAiBreakdown apiKey generateId r now pending st) =
         pages (updatePage (page_id sp)
                  (only_blocks (blocks sp @ generatePageBreakdown apiKey generateId r)) now
                  (pending (st\<lparr>isGenerating := True\<rparr>)))"
  using assms by (simp add: handleAiBreakdown_def Let_def)


text \<open>
  An answer that comes late does to the pages what \<^verbatim>\<open>updatePage\<close> with the captured list
  does in the later state.
\<close>

lemma late_answer_is_updatePage:
  assumes "selectedPage st = Some sp"
  shows "pages (handleAiBreakdown apiKey generateId r now pending st) =
         pages (apply_op
           (UpdatePage (page_id sp)
              (only_blocks (blocks sp @ generatePageBreakdown apiKey generateId r)) now)
           (pending (st\<lparr>isGenerating := True\<rparr>)))"
  using assms by (simp add: handleAiBreakdown_pages)

text \<open>
  So a late answer keeps the pages well formed when the operations made meanwhile do
  and the list written back is well formed.
\<close>

lemma store_ok_late_breakdown:
  assumes "selectedPage st = Some sp"
    and "store_ok (pending (st\<lparr>isGenerating := True\<rparr>))"
    and "blocks_ok (blocks sp @ generatePageBreakdown apiKey generateId r)"
  shows "store_ok (handleAiBreakdown apiKey generateId r now pending st)"
  using assms by (simp add: handleAiBreakdown_def Let_def store_ok_only_blocks)

lemma store_ok_late_suggest:
  assumes "selectedPage st = Some sp"
    and "store_ok (pending (st\<lparr>isGenerating := True\<rparr>))"
    and "blocks_ok (blocks sp @
           \<lparr>block_id = generateId (length (suggestNextSteps apiKey generateId r)),
            block_type = JStr ''h2'', content = JStr ''AI Suggestions'',
            checked = JUndefined\<rparr> # suggestNextSteps apiKey generateId r)"
  shows "store_ok (handleAiSuggest apiKey generateId r now pending st)"
  using assms by (simp add: handleAiSuggest_def Let_def store_ok_only_blocks)

section \<open>Properties\<close>

text \<open>
  C1. \<^verbatim>\<open>addBlock(pageId, afterBlockId)\<close> with an \<^verbatim>\<open>afterBlockId\<close> that no block of the page
  carries should leave the block sequence as it is. On the initial pages, with the
  unknown id \<^verbatim>\<open>missing\<close>, the code instead puts the new block in front of the five blocks
  of page 1.
\<close>

theorem addBlock_unknown_after_initial_pages:
  "map (\<lambda>p. map block_id (blocks p))
     (pages (addBlock ''1'' ''missing'' ''n1'' 5 (initial_state 1 2 3 4))) =
   [[''n1'', ''b1'', ''b2'', ''b3'', ''b4'', ''b5''], [''l1'', ''l2'', ''l3'']]"
  by (simp add: store_defs)

text \<open>
  C2, as stated: after every sequence of store operations every page has at least one
  block. \<^verbatim>\<open>updatePage\<close> accepts any \<^verbatim>\<open>blocks\<close> value, the empty list included. And
  \<^verbatim>\<open>deleteBlock\<close> only tests the length before it filters by id: when \<^verbatim>\<open>generateId\<close> draws
  the id of the page's only block again, both blocks go at once.
\<close>

theorem blocks_emptied_counterexample:
  "map (\<lambda>p. length (blocks p)) (pages (initial_state 1 2 3 4)) = [5, 3] \<and>
   map (\<lambda>p. length (blocks p))
     (pages (run [UpdatePage ''1'' (only_blocks []) 5] (initial_state 1 2 3 4))) = [0, 3] \<and>
   map (\<lambda>p. length (blocks p))
     (pages (run [CreatePage project ''p'' 5 5 ''h'', AddBlock ''p'' ''h'' ''h'' 6,
                  DeleteBlock ''p'' ''h'' 7] (initial_state 1 2 3 4))) = [0, 5, 3]"
  by (simp add: store_defs createPage_def)

text \<open>
  C2, amended. Start from a store whose pages each have at least one block and no block
  id twice. After every sequence of store operations in which \<^verbatim>\<open>updatePage\<close> is given no
  \<^verbatim>\<open>blocks\<close> key or a non-empty list without repeated ids, \<^verbatim>\<open>updateBlock\<close> is given no
  \<^verbatim>\<open>id\<close> key, and the identifiers drawn for new blocks are new to their page and differ
  from one another, every page again has at least one block and no block id twice.
  \<^verbatim>\<open>deleteBlock\<close> applied to a page of one block changes nothing.
\<close>

theorem blocks_never_empty:
  "(store_ok st \<and> ops_ok st ops \<longrightarrow>
      store_ok (run ops st) \<and> list_all (\<lambda>p. 1 \<le> length (blocks p)) (pages (run ops st))) \<and>
   (find (\<lambda>p. page_id p = pageId) (pages st') = Some page \<and> length (blocks page) \<le> 1 \<longrightarrow>
      deleteBlock pageId blockId now st' = st')"
proof -
  have "list_all (\<lambda>p. 1 \<le> length (blocks p)) (pages s)" if "store_ok s" for s
    using that by (auto simp: store_ok_def blocks_ok_def list_all_iff Suc_le_eq)
  with store_ok_run [of st ops] show ?thesis
    by (auto simp: deleteBlock_def)
qed

theorem blocks_never_empty_witness:
  "store_ok (initial_state 1 2 3 4) \<and>
   ops_ok (initial_state 1 2 3 4)
     [CreatePage project ''p'' 5 5 ''h'', AddBlock ''p'' ''h'' ''k'' 6,
      DeleteBlock ''p'' ''h'' 7, DeleteBlock ''p'' ''k'' 8] \<and>
   store_ok (run [CreatePage project ''p'' 5 5 ''h'', AddBlock ''p'' ''h'' ''k'' 6,
                  DeleteBlock ''p'' ''h'' 7, DeleteBlock ''p'' ''k'' 8] (initial_state 1 2 3 4)) \<and>
   list_all (\<lambda>p. 1 \<le> length (blocks p))
     (pages (run [CreatePage project ''p'' 5 5 ''h'', AddBlock ''p'' ''h'' ''k'' 6,
                  DeleteBlock ''p'' ''h'' 7, DeleteBlock ''p'' ''k'' 8] (initial_state 1 2 3 4))) \<and>
   map (\<lambda>p. map block_id (blocks p))
     (pages (run [CreatePage project ''p'' 5 5 ''h'', AddBlock ''p'' ''h'' ''k'' 6,
                  DeleteBlock ''p'' ''h'' 7, DeleteBlock ''p'' ''k'' 8] (initial_state 1 2 3 4))) =
     [[''k''], [''b1'', ''b2'', ''b3'', ''b4'', ''b5''], [''l1'', ''l2'', ''l3'']] \<and>
   find (\<lambda>p. page_id p = ''n'') (pages notes_state) = Some (hd (pages notes_state)) \<and>
   length (blocks (hd (pages notes_state))) \<le> 1 \<and>
   deleteBlock ''n'' ''a'' 9 notes_state = notes_state"
proof -
  let ?ops = "[CreatePage project ''p'' 5 5 ''h'', AddBlock ''p'' ''h'' ''k'' 6,
               DeleteBlock ''p'' ''h'' 7, DeleteBlock ''p'' ''k'' 8]"
  have ok: "store_ok (initial_state 1 2 3 4)"
    by (simp add: store_ok_def blocks_ok_def initial_state_def INITIAL_PAGES_def)
  have oks: "ops_ok (initial_state 1 2 3 4) ?ops"
    by (simp add: store_defs createPage_def)
  have ids: "map (\<lambda>p. map block_id (blocks p)) (pages (run ?ops (initial_state 1 2 3 4))) =
     [[''k''], [''b1'', ''b2'', ''b3'', ''b4'', ''b5''], [''l1'', ''l2'', ''l3'']]"
    by (simp add: store_defs createPage_def)
  have f: "find (\<lambda>p. page_id p = ''n'') (pages notes_state) = Some (hd (pages notes_state))"
    and l: "length (blocks (hd (pages notes_state))) \<le> 1"
    by (simp_all add: notes_state_def)
  from blocks_never_empty [of "initial_state 1 2 3 4" ?ops "''n''" notes_state
      "hd (pages notes_state)" "''a''" 9] ok oks ids f l
  show ?thesis by blast
qed

text \<open>
  C3, as stated: after a blocks update with at least one to-do block the progress is
  \<open>round(100 * completed / total)\<close>, a half going up. The code computes
  \<^verbatim>\<open>Math.round((completed / todos.length) * 100)\<close> on doubles. With 23 of 40 to-dos checked
  the exact value is 57.5, which rounds to 58; the double nearest to 23 / 40 lies below
  0.575, its product with 100 rounds to the double just below 57.5, and the page's
  progress is 57.
\<close>

theorem progress_tie_counterexample:
  "length (filter is_todo (todo_list 23 40)) = 40 \<and>
   length (filter is_checked (filter is_todo (todo_list 23 40))) = 23 \<and>
   progress (updatePage_one ''n'' (only_blocks (todo_list 23 40)) 9 (hd (pages notes_state))) = 57 \<and>
   round_half_up (100 * 23 / 40) = 58"
proof -
  have p: "page_id (hd (pages notes_state)) = ''n''" by (simp add: notes_state_def)
  have ne: "filter is_todo (todo_list 23 40) \<noteq> []"
    unfolding filter_todo_list using length_todo_list [of 23 40] by auto
  have "progress (updatePage_one ''n'' (only_blocks (todo_list 23 40)) 9 (hd (pages notes_state))) = 57"
    unfolding updatePage_one_progress_value [OF p only_blocks_keys(4) ne]
    by (simp add: filter_todo_list length_todo_list checked_todo_list progress_23_of_40)
  moreover have "round_half_up (100 * 23 / 40) = 58"
    by (simp add: round_half_up_def)
  ultimately show ?thesis
    by (simp add: filter_todo_list length_todo_list checked_todo_list)
qed

text \<open>
  C3, amended. After a blocks update whose new block list has at least one to-do block,
  the progress lies between 0 and 100. With the number of to-dos an array length, below
  \<open>2 ^ 32\<close>, it equals \<open>round(100 * completed / total)\<close>, a half going up, in every case
  but one: when \<open>100 * completed / total\<close> lies exactly half-way between two integers and
  the double product \<^verbatim>\<open>(completed / total) * 100\<close> falls short of it, the progress is one
  less. So 1 of 8 gives 13 and 23 of 40 gives 57; the to-do blocks checked, unchecked,
  checked give 67.
\<close>

theorem progress_of_blocks_update:
  assumes "page_id p = i" and "new_blocks u = Some bs" and "filter is_todo bs \<noteq> []"
  shows "0 \<le> progress (updatePage_one i u now p) \<and>
         progress (updatePage_one i u now p) \<le> 100 \<and>
         (length (filter is_todo bs) < 2 ^ 32 \<longrightarrow>
          progress (updatePage_one i u now p) =
            (if half_way (100 * real (length (filter is_checked (filter is_todo bs))) /
                          real (length (filter is_todo bs))) \<and>
                js_mul (js_div (real (length (filter is_checked (filter is_todo bs))))
                               (real (length (filter is_todo bs)))) 100
                < 100 * real (length (filter is_checked (filter is_todo bs))) /
                  real (length (filter is_todo bs))
             then round_half_up (100 * real (length (filter is_checked (filter is_todo bs))) /
                                 real (length (filter is_todo bs))) - 1
             else round_half_up (100 * real (length (filter is_checked (filter is_todo bs))) /
                                 real (length (filter is_todo bs)))))"
proof -
  let ?n = "length (filter is_todo bs)"
  let ?c = "length (filter is_checked (filter is_todo bs))"
  let ?x = "100 * real ?c / real ?n"
  let ?y = "js_mul (js_div (real ?c) (real ?n)) 100"
  have npos: "0 < ?n" using assms(3) by simp
  have cn: "?c \<le> ?n" by (rule length_filter_le)
  note v = updatePage_one_progress_value [OF assms, of now]
  from progress_value_bounds [OF cn npos] have bounds:
    "0 \<le> progress (updatePage_one i u now p)" "progress (updatePage_one i u now p) \<le> 100"
    unfolding v by simp_all
  have exact: "progress (updatePage_one i u now p) =
      (if half_way ?x \<and> ?y < ?x then round_half_up ?x - 1 else round_half_up ?x)"
    if lt: "?n < 2 ^ 32"
  proof (cases "half_way ?x")
    case True
    then have m: "(200 * ?c + ?n) mod (2 * ?n) = 0"
      by (simp only: half_way_iff [OF npos])
    from True show ?thesis
      unfolding v round_half_up_div [OF npos] progress_value_tie [OF cn npos m] by simp
  next
    case False
    then have m: "(200 * ?c + ?n) mod (2 * ?n) \<noteq> 0"
      by (simp only: half_way_iff [OF npos]) simp
    from False show ?thesis
      unfolding v round_half_up_div [OF npos] progress_value_exact [OF cn npos lt m] by simp
  qed
  from bounds exact show ?thesis by blast
qed

theorem progress_of_blocks_update_witness:
  "page_id (hd (pages notes_state)) = ''n'' \<and>
   new_blocks (only_blocks three_todos) = Some three_todos \<and>
   filter is_todo three_todos \<noteq> [] \<and>
   length (filter is_todo three_todos) = 3 \<and>
   length (filter is_checked (filter is_todo three_todos)) = 2 \<and>
   \<not> half_way (100 * 2 / 3) \<and>
   round_half_up (100 * 2 / 3) = 67 \<and>
   progress (updatePage_one ''n'' (only_blocks three_todos) 9 (hd (pages notes_state))) = 67 \<and>
   new_blocks (only_blocks (todo_list 1 8)) = Some (todo_list 1 8) \<and>
   filter is_todo (todo_list 1 8) \<noteq> [] \<and>
   length (filter is_todo (todo_list 1 8)) = 8 \<and>
   length (filter is_checked (filter is_todo (todo_list 1 8))) = 1 \<and>
   half_way (100 * 1 / 8) \<and>
   js_mul (js_div 1 8) 100 = 100 * 1 / 8 \<and>
   round_half_up (100 * 1 / 8) = 13 \<and>
   progress (updatePage_one ''n'' (only_blocks (todo_list 1 8)) 9 (hd (pages notes_state))) = 13 \<and>
   new_blocks (only_blocks (todo_list 23 40)) = Some (todo_list 23 40) \<and>
   filter is_todo (todo_list 23 40) \<noteq> [] \<and>
   length (filter is_todo (todo_list 23 40)) = 40 \<and>
   length (filter is_checked (filter is_todo (todo_list 23 40))) = 23 \<and>
   half_way (100 * 23 / 40) \<and>
   js_mul (js_div 23 40) 100 < 100 * 23 / 40 \<and>
   round_half_up (100 * 23 / 40) - 1 = 57 \<and>
   progress (updatePage_one ''n'' (only_blocks (todo_list 23 40)) 9 (hd (pages notes_state))) = 57"
proof -
  have p: "page_id (hd (pages notes_state)) = ''n''"
    by (simp add: notes_state_def)
  have nb: "new_blocks (only_blocks bs) = Some bs" for bs
    by simp
  have n3: "length (filter is_todo three_todos) = 3"
    and c3: "length (filter is_checked (filter is_todo three_todos)) = 2"
    by (simp_all add: three_todos_def is_todo_def is_checked_def)
  from n3 have ne3: "filter is_todo three_todos \<noteq> []"
    by auto
  have nh3: "\<not> half_way (100 * 2 / 3)"
    by (simp add: half_way_def)
  have r3: "round_half_up (100 * 2 / 3) = 67"
    by (simp add: round_half_up_def)
  from progress_of_blocks_update [OF p nb ne3, of 9]
  have v3: "progress (updatePage_one ''n'' (only_blocks three_todos) 9 (hd (pages notes_state))) = 67"
    unfolding n3 c3 using nh3 r3 by simp
  have n8: "length (filter is_todo (todo_list 1 8)) = 8"
    and c8: "length (filter is_checked (filter is_todo (todo_list 1 8))) = 1"
    by (simp_all add: filter_todo_list length_todo_list checked_todo_list)
  from n8 have ne8: "filter is_todo (todo_list 1 8) \<noteq> []"
    by auto
  have h8: "half_way (100 * 1 / 8)"
    by (simp add: half_way_def)
  have y8: "js_mul (js_div 1 8) 100 = 100 * 1 / 8"
    by (simp add: product_1_of_8)
  have r8: "round_half_up (100 * 1 / 8) = 13"
    by (simp add: round_half_up_def)
  from progress_of_blocks_update [OF p nb ne8, of 9]
  have v8: "progress (updatePage_one ''n'' (only_blocks (todo_list 1 8)) 9 (hd (pages notes_state))) = 13"
    unfolding n8 c8 using h8 y8 r8 by simp
  have n40: "length (filter is_todo (todo_list 23 40)) = 40"
    and c40: "length (filter is_checked (filter is_todo (todo_list 23 40))) = 23"
    by (simp_all add: filter_todo_list length_todo_list checked_todo_list)
  from n40 have ne40: "filter is_todo (todo_list 23 40) \<noteq> []"
    by auto
  have h40: "half_way (100 * 23 / 40)"
    by (simp add: half_way_def)
  have y40: "js_mul (js_div 23 40) 100 < 100 * 23 / 40"
    by (simp add: product_23_of_40)
  have r40: "round_half_up (100 * 23 / 40) - 1 = 57"
    by (simp add: round_half_up_def)
  from progress_of_blocks_update [OF p nb ne40, of 9]
  have v40: "progress (updatePage_one ''n'' (only_blocks (todo_list 23 40)) 9 (hd (pages notes_state))) = 57"
    unfolding n40 c40 using h40 y40 r40 by simp
  from p nb [of three_todos] ne3 n3 c3 nh3 r3 v3
    nb [of "todo_list 1 8"] ne8 n8 c8 h8 y8 r8 v8
    nb [of "todo_list 23 40"] ne40 n40 c40 h40 y40 r40 v40
  show ?thesis by blast
qed




text \<open>
  C5, as stated: after every call of \<^verbatim>\<open>updatePage\<close> or \<^verbatim>\<open>updateBlock\<close> the page's id and
  \<^verbatim>\<open>createdAt\<close> and each block's id are what they were. The updates are \<^verbatim>\<open>Partial<Page>\<close> and
  \<^verbatim>\<open>Partial<Block>\<close> and are spread over the old value, so a call that passes an \<^verbatim>\<open>id\<close> or a
  \<^verbatim>\<open>createdAt\<close> key overwrites the field.
\<close>

theorem patch_counterexample:
  "map page_id (pages (initial_state 1 2 3 4)) = [''1'', ''2''] \<and>
   map createdAt (pages (initial_state 1 2 3 4)) = [1, 3 - 86400000] \<and>
   map page_id (pages (updatePage ''1''
      (no_page_updates\<lparr>new_page_id := Some ''x'', new_createdAt := Some 0\<rparr>) 5
      (initial_state 1 2 3 4))) = [''x'', ''2''] \<and>
   map createdAt (pages (updatePage ''1''
      (no_page_updates\<lparr>new_page_id := Some ''x'', new_createdAt := Some 0\<rparr>) 5
      (initial_state 1 2 3 4))) = [0, 3 - 86400000] \<and>
   map (\<lambda>p. map block_id (blocks p)) (pages (updateBlock ''2'' ''l1''
      (no_block_updates\<lparr>new_block_id := Some ''y''\<rparr>) 5 (initial_state 1 2 3 4))) =
     [[''b1'', ''b2'', ''b3'', ''b4'', ''b5''], [''y'', ''l2'', ''l3'']]"
  by (simp add: store_defs)

text \<open>
  C5, amended. \<^verbatim>\<open>updatePage\<close> leaves every page's id unchanged when its updates carry no
  \<^verbatim>\<open>id\<close> key, every \<^verbatim>\<open>createdAt\<close> unchanged when they carry no \<^verbatim>\<open>createdAt\<close> key, and every
  block list unchanged when they carry no \<^verbatim>\<open>blocks\<close> key. \<^verbatim>\<open>updateBlock\<close> never changes a
  page's id or \<^verbatim>\<open>createdAt\<close>, and when its updates carry no \<^verbatim>\<open>id\<close> key the target page has
  the same block ids in the same order afterwards.
\<close>

theorem identity_preserved:
  "(new_page_id u = None \<longrightarrow>
      map page_id (pages (updatePage i u now st)) = map page_id (pages st)) \<and>
   (new_createdAt u = None \<longrightarrow>
      map createdAt (pages (updatePage i u now st)) = map createdAt (pages st)) \<and>
   (new_blocks u = None \<longrightarrow>
      map blocks (pages (updatePage i u now st)) = map blocks (pages st)) \<and>
   map page_id (pages (updateBlock pageId blockId bu now st)) = map page_id (pages st) \<and>
   map createdAt (pages (updateBlock pageId blockId bu now st)) = map createdAt (pages st) \<and>
   (new_block_id bu = None \<longrightarrow>
      map_option (\<lambda>p. map block_id (blocks p))
        (find (\<lambda>p. page_id p = pageId) (pages (updateBlock pageId blockId bu now st))) =
      map_option (\<lambda>p. map block_id (blocks p)) (find (\<lambda>p. page_id p = pageId) (pages st)))"
proof -
  have a: "map page_id (pages (updateBlock pageId blockId bu now st)) = map page_id (pages st)"
    by (simp add: updateBlock_def updatePage_def updatePage_one_keeps o_def split: option.split)
  have b: "map createdAt (pages (updateBlock pageId blockId bu now st)) = map createdAt (pages st)"
    by (simp add: updateBlock_def updatePage_def updatePage_one_keeps o_def split: option.split)
  have c: "map_option (\<lambda>p. map block_id (blocks p))
        (find (\<lambda>p. page_id p = pageId) (pages (updateBlock pageId blockId bu now st))) =
      map_option (\<lambda>p. map block_id (blocks p)) (find (\<lambda>p. page_id p = pageId) (pages st))"
    if "new_block_id bu = None"
  proof (cases "find (\<lambda>p. page_id p = pageId) (pages st)")
    case None
    then show ?thesis by (simp add: updateBlock_def)
  next
    case (Some page)
    then show ?thesis
      using find_page_id [OF Some] that
      by (simp add: updateBlock_def find_updatePage_only_blocks updatePage_one_only_blocks
          spread_block_keeps_id)
  qed
  show ?thesis
    using a b c by (simp add: updatePage_def updatePage_one_keeps o_def)
qed

theorem identity_preserved_witness:
  "new_page_id (no_page_updates\<lparr>new_title := Some ''Plan''\<rparr>) = None \<and>
   new_createdAt (no_page_updates\<lparr>new_title := Some ''Plan''\<rparr>) = None \<and>
   new_blocks (no_page_updates\<lparr>new_title := Some ''Plan''\<rparr>) = None \<and>
   new_block_id (no_block_updates\<lparr>new_checked := Some True\<rparr>) = None \<and>
   map page_id (pages (updatePage ''1'' (no_page_updates\<lparr>new_title := Some ''Plan''\<rparr>) 5
     (initial_state 1 2 3 4))) = [''1'', ''2''] \<and>
   map createdAt (pages (updatePage ''1'' (no_page_updates\<lparr>new_title := Some ''Plan''\<rparr>) 5
     (initial_state 1 2 3 4))) = [1, 3 - 86400000] \<and>
   map blocks (pages (updatePage ''1'' (no_page_updates\<lparr>new_title := Some ''Plan''\<rparr>) 5
     (initial_state 1 2 3 4))) = map blocks (INITIAL_PAGES 1 2 3 4) \<and>
   map page_id (pages (updateBlock ''1'' ''b5'' (no_block_updates\<lparr>new_checked := Some True\<rparr>) 5
     (initial_state 1 2 3 4))) = [''1'', ''2''] \<and>
   map createdAt (pages (updateBlock ''1'' ''b5'' (no_block_updates\<lparr>new_checked := Some True\<rparr>) 5
     (initial_state 1 2 3 4))) = [1, 3 - 86400000] \<and>
   map_option (\<lambda>p. map block_id (blocks p))
     (find (\<lambda>p. page_id p = ''1'')
       (pages (updateBlock ''1'' ''b5'' (no_block_updates\<lparr>new_checked := Some True\<rparr>) 5
         (initial_state 1 2 3 4)))) = Some [''b1'', ''b2'', ''b3'', ''b4'', ''b5'']"
proof -
  have pg: "pages (initial_state 1 2 3 4) = INITIAL_PAGES 1 2 3 4"
    by (simp add: initial_state_def)
  have ids: "map page_id (INITIAL_PAGES 1 2 3 4) = [''1'', ''2'']"
    and cr: "map createdAt (INITIAL_PAGES 1 2 3 4) = [1, 3 - 86400000]"
    and bl: "map_option (\<lambda>p. map block_id (blocks p))
        (find (\<lambda>p. page_id p = ''1'') (INITIAL_PAGES 1 2 3 4)) =
        Some [''b1'', ''b2'', ''b3'', ''b4'', ''b5'']"
    by (simp_all add: INITIAL_PAGES_def)
  from identity_preserved [of "no_page_updates\<lparr>new_title := Some ''Plan''\<rparr>" "''1''" 5
      "initial_state 1 2 3 4" "''1''" "''b5''" "no_block_updates\<lparr>new_checked := Some True\<rparr>"]
  show ?thesis
    unfolding pg ids cr bl by (simp add: no_page_updates_def no_block_updates_def)
qed

text \<open>
  C6. Whatever block mutation is applied (a block handler, a generation handler, or
  \<^verbatim>\<open>updatePage\<close> with a \<^verbatim>\<open>blocks\<close> key and no \<^verbatim>\<open>progress\<close> key), every page that has no to-do
  block afterwards has the progress it had before: a page without to-dos is never forced
  to 0, and a progress of 42 stays 42.
\<close>

theorem no_todos_keep_progress:
  assumes "block_mutation op"
  shows "list_all2 (\<lambda>p p'. filter is_todo (blocks p') = [] \<longrightarrow> progress p' = progress p)
           (pages st) (pages (apply_op op st))"
proof (cases op)
  case (UpdatePage i u now)
  with assms show ?thesis by (simp add: updatePage_progress)
next
  case (UpdateBlock pageId blockId u now)
  then show ?thesis
    by (simp add: updateBlock_def updatePage_progress same_pages_progress split: option.split)
next
  case (AddBlock pageId afterBlockId newId now)
  then show ?thesis
    by (simp add: addBlock_def Let_def updatePage_progress same_pages_progress split: option.split)
next
  case (DeleteBlock pageId blockId now)
  then show ?thesis
    by (simp add: deleteBlock_def updatePage_progress same_pages_progress split: option.split)
next
  case (AiBreakdown apiKey generateId r now)
  then show ?thesis
    by (simp add: handleAiBreakdown_def Let_def updatePage_progress same_pages_progress
        split: option.split)
next
  case (AiSuggest apiKey generateId r now)
  then show ?thesis
    by (simp add: handleAiSuggest_def Let_def updatePage_progress same_pages_progress
        split: option.split)
qed (use assms in simp_all)

theorem no_todos_keep_progress_witness:
  "block_mutation (UpdateBlock ''n'' ''a'' (no_block_updates\<lparr>new_content := Some ''final''\<rparr>) 9) \<and>
   list_all2 (\<lambda>p p'. filter is_todo (blocks p') = [] \<longrightarrow> progress p' = progress p)
     (pages notes_state)
     (pages (apply_op (UpdateBlock ''n'' ''a'' (no_block_updates\<lparr>new_content := Some ''final''\<rparr>) 9)
        notes_state)) \<and>
   map progress (pages notes_state) = [42] \<and>
   map (\<lambda>p. (map content (blocks p), filter is_todo (blocks p), progress p))
     (pages (apply_op (UpdateBlock ''n'' ''a'' (no_block_updates\<lparr>new_content := Some ''final''\<rparr>) 9)
        notes_state)) = [([JStr ''final''], [], 42)]"
proof -
  have m: "block_mutation (UpdateBlock ''n'' ''a'' (no_block_updates\<lparr>new_content := Some ''final''\<rparr>) 9)"
    by simp
  have ev: "map (\<lambda>p. (map content (blocks p), filter is_todo (blocks p), progress p))
     (pages (apply_op (UpdateBlock ''n'' ''a'' (no_block_updates\<lparr>new_content := Some ''final''\<rparr>) 9)
        notes_state)) = [([JStr ''final''], [], 42)]"
    by (simp add: notes_state_def store_defs)
  have before: "map progress (pages notes_state) = [42]"
    by (simp add: notes_state_def)
  from no_todos_keep_progress [OF m, of notes_state] m ev before show ?thesis by blast
qed

text \<open>
  C7, as stated: \<^verbatim>\<open>updateBlock\<close> with a block id the page does not have changes no field of
  the page. On the initial pages it changes two: \<^verbatim>\<open>updatedAt\<close> of page 1 goes from 2 to the
  clock reading 5, and \<^verbatim>\<open>progress\<close> from 35 to 50.
\<close>

theorem updateBlock_unknown_block_counterexample:
  "map (\<lambda>p. (updatedAt p, progress p)) (pages (initial_state 1 2 3 4)) = [(2, 35), (4, 100)] \<and>
   map (\<lambda>p. (updatedAt p, progress p))
     (pages (updateBlock ''1'' ''missing'' no_block_updates 5 (initial_state 1 2 3 4))) =
   [(5, 50), (4, 100)]"
  by (simp add: store_defs progress_1_of_2)

text \<open>
  C7, amended. \<^verbatim>\<open>updateBlock\<close> and \<^verbatim>\<open>deleteBlock\<close> with a block id the page does not have
  return nothing and raise nothing, and leave the page's id, type, title, emoji,
  \<^verbatim>\<open>createdAt\<close> and blocks as they are; \<^verbatim>\<open>updatedAt\<close> becomes the current time and
  \<^verbatim>\<open>progress\<close> is computed again from the page's to-do blocks. \<^verbatim>\<open>deleteBlock\<close> on a page of
  at most one block changes nothing.
\<close>

theorem unknown_block_touches_page:
  assumes "find (\<lambda>p. page_id p = pageId) (pages st) = Some page"
    and "blockId \<notin> block_id ` set (blocks page)"
  shows "find (\<lambda>p. page_id p = pageId) (pages (updateBlock pageId blockId updates now st)) =
           Some (recalc_progress (page\<lparr>updatedAt := now\<rparr>)) \<and>
         find (\<lambda>p. page_id p = pageId) (pages (deleteBlock pageId blockId now st)) =
           Some (if length (blocks page) \<le> 1 then page
                 else recalc_progress (page\<lparr>updatedAt := now\<rparr>))"
  using assms find_page_id [OF assms(1)]
  by (simp add: updateBlock_def deleteBlock_def map_no_match filter_no_match
      find_updatePage_only_blocks updatePage_one_only_blocks)

theorem unknown_block_touches_page_witness:
  "find (\<lambda>p. page_id p = ''1'') (pages (initial_state 1 2 3 4)) = Some (hd (INITIAL_PAGES 1 2 3 4)) \<and>
   ''missing'' \<notin> block_id ` set (blocks (hd (INITIAL_PAGES 1 2 3 4))) \<and>
   find (\<lambda>p. page_id p = ''1'')
     (pages (updateBlock ''1'' ''missing'' no_block_updates 5 (initial_state 1 2 3 4))) =
     Some (recalc_progress (hd (INITIAL_PAGES 1 2 3 4)\<lparr>updatedAt := 5\<rparr>)) \<and>
   find (\<lambda>p. page_id p = ''1'')
     (pages (deleteBlock ''1'' ''missing'' 5 (initial_state 1 2 3 4))) =
     Some (recalc_progress (hd (INITIAL_PAGES 1 2 3 4)\<lparr>updatedAt := 5\<rparr>))"
proof -
  have h1: "find (\<lambda>p. page_id p = ''1'') (pages (initial_state 1 2 3 4)) =
      Some (hd (INITIAL_PAGES 1 2 3 4))"
    by (simp add: initial_state_def INITIAL_PAGES_def)
  have h2: "''missing'' \<notin> block_id ` set (blocks (hd (INITIAL_PAGES 1 2 3 4)))"
    by (simp add: INITIAL_PAGES_def)
  have h3: "\<not> length (blocks (hd (INITIAL_PAGES 1 2 3 4))) \<le> 1"
    by (simp add: INITIAL_PAGES_def)
  show ?thesis
    using h1 h2 h3 unknown_block_touches_page [OF h1 h2, of no_block_updates 5] by simp
qed




text \<open>
  C9. \<^verbatim>\<open>createPage(type)\<close> puts a new page at the front of the page collection. Its
  progress is 0, its \<^verbatim>\<open>createdAt\<close> and \<^verbatim>\<open>updatedAt\<close> are the clock readings taken while
  the page is built (the same value when the clock has not ticked between the two
  reads), and its block list is exactly one \<^verbatim>\<open>h1\<close> block with empty content.
\<close>

theorem createPage_new_page:
  "\<exists>newPage b.
     pages (createPage type pid t1 t2 bid st) = newPage # pages st \<and>
     selectedPageId (createPage type pid t1 t2 bid st) = Some (page_id newPage) \<and>
     page_id newPage = pid \<and> page_type newPage = type \<and>
     progress newPage = 0 \<and>
     createdAt newPage = t1 \<and> updatedAt newPage = t2 \<and>
     blocks newPage = [b] \<and>
     block_id b = bid \<and> block_type b = JStr ''h1'' \<and> content b = JStr '''' \<and> checked b = JUndefined"
  by (simp add: createPage_def Let_def)




end
